theory Spec2Isabelle
  imports Complex_Main "HOL-Library.Word" "HOL-Library.Sublist"
begin

unbundle bit_operations_syntax

section \<open>Binary message codec (package terminal)\<close>

text \<open>
  Go's \<open>[]byte\<close> and \<open>string\<close> are byte sequences; \<open>int64\<close> and \<open>uint64\<close> share their 64 bits
  (the conversions between them keep the bits), so both are \<open>64 word\<close> here, read with
  \<open>sint\<close> or \<open>uint\<close>. Go's \<open>int\<close> is taken to be the 64-bit one: \<open>int (u :: uint32)\<close> is
  \<open>uint u\<close>, and \<open>uint32 (i :: int)\<close> keeps the low 32 bits (\<open>word_of_int\<close>).
\<close>

type_synonym byte = "8 word"

definition HeaderLength :: nat where "HeaderLength = 120"

definition MessageTypeLength :: nat where "MessageTypeLength = 32"

definition MessageIDLength :: nat where "MessageIDLength = 16"

definition PayloadDigestLength :: nat where "PayloadDigestLength = 32"

definition SchemaVersion_const :: int where "SchemaVersion_const = 1"

text \<open>\<open>MessageTypeOutputStream = "output_stream_data"\<close>, as bytes.\<close>

definition MessageTypeOutputStream :: "byte list" where
  "MessageTypeOutputStream =
     [111, 117, 116, 112, 117, 116, 95, 115, 116, 114, 101, 97, 109, 95, 100, 97, 116, 97]"

definition PayloadTypeOutput :: int where "PayloadTypeOutput = 1"

definition PayloadTypeError :: int where "PayloadTypeError = 2"

definition PayloadTypeSize :: int where "PayloadTypeSize = 3"

definition PayloadTypeParameter :: int where "PayloadTypeParameter = 4"

definition PayloadTypeHandshakeRequest :: int where "PayloadTypeHandshakeRequest = 5"

definition PayloadTypeHandshakeResp :: int where "PayloadTypeHandshakeResp = 6"

definition PayloadTypeHandshakeComplete :: int where "PayloadTypeHandshakeComplete = 7"

definition PayloadTypeExitCode :: int where "PayloadTypeExitCode = 12"

record AgentMessage =
  HeaderLength_f :: int
  MessageType :: "byte list"
  SchemaVersion :: int
  CreatedDate :: "64 word"
  SequenceNumber :: "64 word"
  Flags :: "64 word"
  MessageID :: "byte list"
  PayloadDigest :: "byte list"
  PayloadType :: int
  PayloadLength :: int
  Payload :: "byte list"

text \<open>
  \<open>binary.BigEndian\<close> of the Go library: \<open>PutUint32\<close> stores \<open>byte (v >> 24)\<close>, \<open>byte (v >> 16)\<close>,
  \<open>byte (v >> 8)\<close>, \<open>byte v\<close>; \<open>Uint32\<close> reads the first four bytes of its argument
  (every call below is on a slice of at least that length).
\<close>

definition PutUint32 :: "32 word \<Rightarrow> byte list" where
  "PutUint32 v = [ucast (drop_bit 24 v), ucast (drop_bit 16 v), ucast (drop_bit 8 v), ucast v]"

definition Uint32 :: "byte list \<Rightarrow> 32 word" where
  "Uint32 b = ucast (b ! 3) OR push_bit 8 (ucast (b ! 2)) OR push_bit 16 (ucast (b ! 1))
     OR push_bit 24 (ucast (b ! 0))"

definition PutUint64 :: "64 word \<Rightarrow> byte list" where
  "PutUint64 v = [ucast (drop_bit 56 v), ucast (drop_bit 48 v), ucast (drop_bit 40 v),
     ucast (drop_bit 32 v), ucast (drop_bit 24 v), ucast (drop_bit 16 v), ucast (drop_bit 8 v),
     ucast v]"

definition Uint64 :: "byte list \<Rightarrow> 64 word" where
  "Uint64 b = ucast (b ! 7) OR push_bit 8 (ucast (b ! 6)) OR push_bit 16 (ucast (b ! 5))
     OR push_bit 24 (ucast (b ! 4)) OR push_bit 32 (ucast (b ! 3)) OR push_bit 40 (ucast (b ! 2))
     OR push_bit 48 (ucast (b ! 1)) OR push_bit 56 (ucast (b ! 0))"

text \<open>\<open>trimNullBytes\<close>: the bytes before the first null byte, all of them when there is none.\<close>

fun trimNullBytes :: "byte list \<Rightarrow> byte list" where
  "trimNullBytes [] = []"
| "trimNullBytes (c # b) = (if c = 0 then [] else c # trimNullBytes b)"

text \<open>
  \<open>ParseMessage\<close>. The only error is the length check; every later read stays inside the
  first 120 bytes, and the payload is copied only when the declared length fits.
\<close>

definition ParseMessage :: "byte list \<Rightarrow> string + AgentMessage" where
  "ParseMessage data =
    (if length data < HeaderLength then Inl ''message too short''
     else
       let pl = uint (Uint32 (drop 116 data)) in
       Inr \<lparr> HeaderLength_f = uint (Uint32 data),
             MessageType = trimNullBytes (take MessageTypeLength (drop 4 data)),
             SchemaVersion = uint (Uint32 (drop 36 data)),
             CreatedDate = Uint64 (drop 40 data),
             SequenceNumber = Uint64 (drop 48 data),
             Flags = Uint64 (drop 56 data),
             MessageID = take MessageIDLength (drop 64 data),
             PayloadDigest = take PayloadDigestLength (drop 80 data),
             PayloadType = uint (Uint32 (drop 112 data)),
             PayloadLength = pl,
             Payload = (if int (length data) \<ge> 120 + pl
                        then take (nat pl) (drop 120 data) else []) \<rparr>)"

definition IsOutput :: "AgentMessage \<Rightarrow> bool" where
  "IsOutput m \<longleftrightarrow> PayloadType m = PayloadTypeOutput"

definition IsHandshakeComplete :: "AgentMessage \<Rightarrow> bool" where
  "IsHandshakeComplete m \<longleftrightarrow> PayloadType m = PayloadTypeHandshakeComplete"

definition IsExitCode :: "AgentMessage \<Rightarrow> bool" where
  "IsExitCode m \<longleftrightarrow> PayloadType m = PayloadTypeExitCode"

text \<open>
  \<open>copy (buf[off : off+n], src)\<close> into a freshly zeroed buffer: the first \<open>n\<close> bytes of
  \<open>src\<close>, the rest of the field left zero.
\<close>

definition copy_field :: "nat \<Rightarrow> byte list \<Rightarrow> byte list" where
  "copy_field n src = take n src @ replicate (n - length src) 0"

text \<open>
  \<open>BuildMessage\<close>. What the function takes from outside is passed in: \<open>Sum256\<close> is
  \<open>sha256.Sum256\<close> of the Go library, \<open>now\<close> is \<open>uint64 (time.Now().UnixMilli())\<close>, and
  \<open>rnd\<close> the bytes that \<open>rand.Read\<close> delivers (its error is dropped by the code, so a short
  delivery leaves zeros).
\<close>

definition BuildMessage ::
  "(byte list \<Rightarrow> byte list) \<Rightarrow> 64 word \<Rightarrow> byte list \<Rightarrow>
   byte list \<Rightarrow> int \<Rightarrow> byte list \<Rightarrow> 64 word \<Rightarrow> byte list" where
  "BuildMessage Sum256 now rnd messageType payloadType payload sequenceNumber =
     PutUint32 (word_of_nat HeaderLength)
     @ copy_field MessageTypeLength messageType
     @ PutUint32 (word_of_int SchemaVersion_const)
     @ PutUint64 now
     @ PutUint64 sequenceNumber
     @ PutUint64 0
     @ copy_field MessageIDLength rnd
     @ copy_field PayloadDigestLength (Sum256 payload)
     @ PutUint32 (word_of_int payloadType)
     @ PutUint32 (word_of_nat (length payload))
     @ payload"

definition BuildInputMessage ::
  "(byte list \<Rightarrow> byte list) \<Rightarrow> 64 word \<Rightarrow> byte list \<Rightarrow> byte list \<Rightarrow> 64 word \<Rightarrow> byte list" where
  "BuildInputMessage Sum256 now rnd input sequenceNumber =
     BuildMessage Sum256 now rnd MessageTypeOutputStream PayloadTypeOutput input sequenceNumber"

section \<open>Bandwidth limit strings (package file)\<close>

text \<open>
  Go strings are byte strings; \<open>string\<close> is used for them from here on. \<open>strings.ToUpper\<close> and
  \<open>strings.TrimSpace\<close> are modelled on ASCII (letters \<open>a\<close> to \<open>z\<close>; tab, line feed, vertical
  tab, form feed, carriage return and space).
\<close>

definition ToUpper_char :: "char \<Rightarrow> char" where
  "ToUpper_char c = (if 97 \<le> (of_char c :: nat) \<and> (of_char c :: nat) \<le> 122
                     then char_of ((of_char c :: nat) - 32) else c)"

definition ToUpper :: "string \<Rightarrow> string" where
  "ToUpper s = map ToUpper_char s"

definition is_space :: "char \<Rightarrow> bool" where
  "is_space c \<longleftrightarrow> (of_char c :: nat) \<in> {9, 10, 11, 12, 13, 32}"

definition TrimSpace :: "string \<Rightarrow> string" where
  "TrimSpace s = rev (dropWhile is_space (rev (dropWhile is_space s)))"

definition HasSuffix :: "string \<Rightarrow> string \<Rightarrow> bool" where
  "HasSuffix s suf \<longleftrightarrow> take (length suf) (rev s) = rev suf"

definition TrimSuffix :: "string \<Rightarrow> string \<Rightarrow> string" where
  "TrimSuffix s suf = (if HasSuffix s suf then take (length s - length suf) s else s)"

text \<open>
  A \<open>float64\<close> is one of the rationals the format holds, an infinity or NaN. The functions
  below are the operations \<open>ParseBandwidthLimit\<close> applies to one: the test \<open>num <= 0\<close>, the
  product with the multiplier (a power of two, so the product is exact unless it overflows),
  and the conversion \<open>int64 (f)\<close>, which truncates towards zero and whose result Go leaves to
  the implementation when the value does not fit (\<open>impl\<close>).
\<close>

datatype float64 = Finite rat | PosInf | NegInf | NaN

datatype num_error = ErrSyntax | ErrRange

definition range_limit :: rat where
  "range_limit = 2 ^ 1024 - 2 ^ 970"

fun le_zero :: "float64 \<Rightarrow> bool" where
  "le_zero (Finite r) = (r \<le> 0)"
| "le_zero PosInf = False"
| "le_zero NegInf = True"
| "le_zero NaN = False"

fun fmul :: "float64 \<Rightarrow> int \<Rightarrow> float64" where
  "fmul (Finite r) m =
     (if r * of_int m \<ge> range_limit then PosInf
      else if r * of_int m \<le> - range_limit then NegInf
      else Finite (r * of_int m))"
| "fmul PosInf m = PosInf"
| "fmul NegInf m = NegInf"
| "fmul NaN m = NaN"

definition trunc :: "rat \<Rightarrow> int" where
  "trunc r = (if r \<ge> 0 then \<lfloor>r\<rfloor> else \<lceil>r\<rceil>)"

fun int64_of_float :: "(float64 \<Rightarrow> int) \<Rightarrow> float64 \<Rightarrow> int" where
  "int64_of_float impl (Finite r) =
     (if - (2 ^ 63) \<le> trunc r \<and> trunc r < 2 ^ 63 then trunc r else impl (Finite r))"
| "int64_of_float impl f = impl f"

datatype bw_error = InvalidLimit string num_error | NotPositive string

text \<open>
  \<open>ParseBandwidthLimit\<close>, with \<open>strconv.ParseFloat (numStr, 64)\<close> of the Go library as the
  parameter \<open>ParseFloat\<close>. The cases of the \<open>switch\<close> are tried in the source's order.
\<close>

definition ParseBandwidthLimit ::
  "(string \<Rightarrow> num_error + float64) \<Rightarrow> (float64 \<Rightarrow> int) \<Rightarrow> string \<Rightarrow> bw_error + int" where
  "ParseBandwidthLimit ParseFloat impl s0 =
     (if s0 = [] then Inr 0
      else
        let s = TrimSpace (ToUpper s0);
            (multiplier, numStr) =
              (if HasSuffix s ''G'' then (1024 * 1024 * 1024, TrimSuffix s ''G'')
               else if HasSuffix s ''GB'' then (1024 * 1024 * 1024, TrimSuffix s ''GB'')
               else if HasSuffix s ''M'' then (1024 * 1024, TrimSuffix s ''M'')
               else if HasSuffix s ''MB'' then (1024 * 1024, TrimSuffix s ''MB'')
               else if HasSuffix s ''K'' then (1024, TrimSuffix s ''K'')
               else if HasSuffix s ''KB'' then (1024, TrimSuffix s ''KB'')
               else if HasSuffix s ''B'' then (1, TrimSuffix s ''B'')
               else (1, s))
        in case ParseFloat numStr of
             Inl err \<Rightarrow> Inl (InvalidLimit s err)
           | Inr num \<Rightarrow>
               if le_zero num then Inl (NotPositive s)
               else Inr (int64_of_float impl (fmul num multiplier)))"

subsection \<open>Decimal literals\<close>

text \<open>
  \<open>ParseFloat_decimal\<close> stands for \<open>strconv.ParseFloat\<close> on the literals the examples use: an
  optional sign, digits with an optional point, an optional decimal exponent, and the words
  \<open>inf\<close>, \<open>infinity\<close> and \<open>nan\<close> in any case. Its value is the decimal's own value, which is
  the \<open>float64\<close> whenever the decimal is representable; rounding to the nearest \<open>float64\<close>,
  hexadecimal literals and digit separators are outside it. A value that rounds beyond the
  largest \<open>float64\<close> is a range error.
\<close>

definition is_digit :: "char \<Rightarrow> bool" where
  "is_digit c \<longleftrightarrow> 48 \<le> (of_char c :: nat) \<and> (of_char c :: nat) \<le> 57"

definition digits_value :: "string \<Rightarrow> nat" where
  "digits_value ds = foldl (\<lambda>a c. 10 * a + ((of_char c :: nat) - 48)) 0 ds"

definition parse_mantissa :: "string \<Rightarrow> rat option" where
  "parse_mantissa s =
     (let ip = takeWhile is_digit s; rest = dropWhile is_digit s in
      case rest of
        [] \<Rightarrow> if ip = [] then None else Some (of_nat (digits_value ip))
      | c # fp \<Rightarrow>
          if c = CHR ''.'' \<and> list_all is_digit fp \<and> (ip \<noteq> [] \<or> fp \<noteq> [])
          then Some (of_nat (digits_value (ip @ fp)) / 10 ^ length fp) else None)"

definition parse_exponent :: "string \<Rightarrow> int option" where
  "parse_exponent s =
     (case s of
        [] \<Rightarrow> None
      | c # ds \<Rightarrow>
          if c = CHR ''-''
          then (if ds \<noteq> [] \<and> list_all is_digit ds then Some (- int (digits_value ds)) else None)
          else if c = CHR ''+''
          then (if ds \<noteq> [] \<and> list_all is_digit ds then Some (int (digits_value ds)) else None)
          else if list_all is_digit s then Some (int (digits_value s)) else None)"

definition is_exp_char :: "char \<Rightarrow> bool" where
  "is_exp_char c \<longleftrightarrow> c = CHR ''e'' \<or> c = CHR ''E''"

definition parse_unsigned :: "string \<Rightarrow> rat option" where
  "parse_unsigned s =
     (let m = takeWhile (\<lambda>c. \<not> is_exp_char c) s; e = dropWhile (\<lambda>c. \<not> is_exp_char c) s in
      case parse_mantissa m of
        None \<Rightarrow> None
      | Some v \<Rightarrow>
          (case e of
             [] \<Rightarrow> Some v
           | _ # ex \<Rightarrow>
               (case parse_exponent ex of
                  None \<Rightarrow> None
                | Some k \<Rightarrow> Some (if k \<ge> 0 then v * 10 ^ nat k else v / 10 ^ nat (- k)))))"

definition special :: "string \<Rightarrow> float64 option" where
  "special s =
     (let u = ToUpper s in
      if u = ''INF'' \<or> u = ''+INF'' \<or> u = ''INFINITY'' \<or> u = ''+INFINITY'' then Some PosInf
      else if u = ''-INF'' \<or> u = ''-INFINITY'' then Some NegInf
      else if u = ''NAN'' then Some NaN
      else None)"

definition ParseFloat_decimal :: "string \<Rightarrow> num_error + float64" where
  "ParseFloat_decimal s =
     (case special s of
        Some f \<Rightarrow> Inr f
      | None \<Rightarrow>
          (let (neg, body) = (case s of
                                [] \<Rightarrow> (False, [])
                              | c # r \<Rightarrow> if c = CHR ''-'' then (True, r)
                                         else if c = CHR ''+'' then (False, r) else (False, s)) in
           case parse_unsigned body of
             None \<Rightarrow> Inl ErrSyntax
           | Some v \<Rightarrow> if v \<ge> range_limit then Inl ErrRange
                       else Inr (Finite (if neg then - v else v))))"

text \<open>
  The grammar of a limit: a magnitude written with digits, a point and a sign, followed by
  one of the unit suffixes, in either case.
\<close>

definition is_numchar :: "char \<Rightarrow> bool" where
  "is_numchar c \<longleftrightarrow> is_digit c \<or> c = CHR ''.'' \<or> c = CHR ''-'' \<or> c = CHR ''+''"

definition units :: "(string \<times> int) list" where
  "units = [([], 1), (''B'', 1), (''K'', 1024), (''KB'', 1024), (''M'', 1024 * 1024),
            (''MB'', 1024 * 1024), (''G'', 1024 * 1024 * 1024), (''GB'', 1024 * 1024 * 1024)]"

section \<open>Progress reporter (package file)\<close>

text \<open>
  The bar of \<open>printProgress\<close>. A cell is one of the two runes of the bar, so the width of the
  bar in columns is the length of the list. \<open>strings.Repeat\<close> panics on a negative count.
  \<open>recent\<close> says that less than 100 ms have passed since the last print, \<open>GetSize\<close> is what
  \<open>term.GetSize\<close> returns for standard output (width and height, or an error). The percentage
  is computed in rationals; rounding of \<open>float64\<close> can move the border between filled and
  unfilled cells by one, never the width.
\<close>

datatype cell = Full | Light

datatype render = Skipped | Panicked | Bar "cell list"

definition Repeat :: "cell \<Rightarrow> int \<Rightarrow> cell list option" where
  "Repeat c n = (if n < 0 then None else Some (replicate (nat n) c))"

definition percent_of :: "int \<Rightarrow> int \<Rightarrow> rat" where
  "percent_of cur tot = (if tot > 0 then of_int cur / of_int tot * 100 else 0)"

definition build_bar :: "int \<Rightarrow> rat \<Rightarrow> render" where
  "build_bar barWidth percent =
     (let filled0 = trunc (percent / 100 * of_int barWidth);
          filled = (if filled0 > barWidth then barWidth else filled0)
      in case (Repeat Full filled, Repeat Light (barWidth - filled)) of
           (Some a, Some b) \<Rightarrow> Bar (a @ b)
         | _ \<Rightarrow> Panicked)"

text \<open>\<open>ProgressWriter.printProgress\<close> asks the terminal for its width.\<close>

definition ProgressWriter_printProgress ::
  "bool \<Rightarrow> bool \<Rightarrow> (string + int \<times> int) \<Rightarrow> int \<Rightarrow> int \<Rightarrow> render" where
  "ProgressWriter_printProgress quiet recent GetSize tot cur =
     (if quiet then Skipped
      else if recent then Skipped
      else
        let percent = percent_of cur tot;
            barWidth = (case GetSize of
                          Inr (w, h) \<Rightarrow> if w > 80 then 40 else 30
                        | Inl err \<Rightarrow> 30)
        in build_bar barWidth percent)"

text \<open>
  \<open>ProgressReader.printProgress\<close> ("same as ProgressWriter", says its comment) does not: its
  \<open>barWidth\<close> is 30. The terminal is passed all the same, to compare the two.
\<close>

definition ProgressReader_printProgress ::
  "bool \<Rightarrow> bool \<Rightarrow> (string + int \<times> int) \<Rightarrow> int \<Rightarrow> int \<Rightarrow> render" where
  "ProgressReader_printProgress quiet recent GetSize tot cur =
     (if quiet then Skipped
      else if recent then Skipped
      else
        let percent = percent_of cur tot;
            barWidth = 30
        in build_bar barWidth percent)"

section \<open>Copy loop and rate-limited streams (package file)\<close>

text \<open>
  An \<open>io.Reader\<close> is a function from its state and the length of the buffer offered to the
  bytes read, the error and the new state; an \<open>io.Writer\<close> one from its state and the bytes
  offered to the count written, the error and the new state. Counts are \<open>nat\<close>: readers and
  writers keep to the contract \<open>0 <= n <= len (p)\<close>.
\<close>

datatype ctx_error = Canceled | DeadlineExceeded

datatype io_error = EOF | ErrShortWrite | CtxErr ctx_error | WriteFailed

type_synonym 'r reader = "'r \<Rightarrow> nat \<Rightarrow> byte list \<times> io_error option \<times> 'r"

type_synonym 'w writer = "'w \<Rightarrow> byte list \<Rightarrow> nat \<times> io_error option \<times> 'w"

text \<open>
  Two streams to run the code on. \<open>mem_read\<close> reads from bytes held in memory, as
  \<open>strings.Reader\<close> and a regular file do: as many bytes as the buffer takes, then \<open>io.EOF\<close>.
  A \<open>sink\<close> keeps what it is given; with \<open>room = Some r\<close> it fails once \<open>r\<close> more bytes are
  written, as a full disk does.
\<close>

definition mem_read :: "(byte list) reader" where
  "mem_read r n = (if r = [] then ([], Some EOF, r) else (take n r, None, drop n r))"

record sink =
  written_data :: "byte list"
  room :: "nat option"

definition sink_write :: "sink writer" where
  "sink_write s p =
     (case room s of
        None \<Rightarrow> (length p, None, s\<lparr>written_data := written_data s @ p\<rparr>)
      | Some r \<Rightarrow>
          if length p \<le> r
          then (length p, None, s\<lparr>written_data := written_data s @ p, room := Some (r - length p)\<rparr>)
          else (r, Some WriteFailed, s\<lparr>written_data := written_data s @ take r p, room := Some 0\<rparr>))"

text \<open>
  \<open>CopyWithContext\<close>. \<open>ctx k\<close> is what the \<open>k\<close>-th \<open>select\<close> on \<open>ctx.Done ()\<close> finds: \<open>None\<close> while
  the context is live, \<open>ctx.Err ()\<close> once it is done. The \<open>for\<close> loop has no bound of its own,
  so the model counts iterations down from \<open>fuel\<close>; \<open>None\<close> means the loop has not returned
  within them. The result is the pair the function returns, with the two streams after it.
\<close>

fun copy_loop ::
  "nat \<Rightarrow> (nat \<Rightarrow> ctx_error option) \<Rightarrow> 'w writer \<Rightarrow> 'r reader \<Rightarrow> nat \<Rightarrow> 'w \<Rightarrow> 'r \<Rightarrow> nat
     \<Rightarrow> ((nat \<times> io_error option) \<times> 'w \<times> 'r) option" where
  "copy_loop 0 ctx wr rd k dst src written = None"
| "copy_loop (Suc fuel) ctx wr rd k dst src written =
     (case ctx k of
        Some cerr \<Rightarrow> Some ((written, Some (CtxErr cerr)), dst, src)
      | None \<Rightarrow>
          (case rd src (32 * 1024) of (buf, rerr, src') \<Rightarrow>
             (if length buf > 0 then
                (case wr dst buf of (nw, werr, dst') \<Rightarrow>
                   let written' = (if nw > 0 then written + nw else written) in
                   (case werr of
                      Some e \<Rightarrow> Some ((written', Some e), dst', src')
                    | None \<Rightarrow>
                        if length buf \<noteq> nw then Some ((written', Some ErrShortWrite), dst', src')
                        else (case rerr of
                                Some e \<Rightarrow>
                                  Some ((written', if e = EOF then None else Some e), dst', src')
                              | None \<Rightarrow> copy_loop fuel ctx wr rd (Suc k) dst' src' written')))
              else
                (case rerr of
                   Some e \<Rightarrow> Some ((written, if e = EOF then None else Some e), dst, src')
                 | None \<Rightarrow> copy_loop fuel ctx wr rd (Suc k) dst src' written))))"

definition CopyWithContext ::
  "nat \<Rightarrow> (nat \<Rightarrow> ctx_error option) \<Rightarrow> 'w writer \<Rightarrow> 'r reader \<Rightarrow> 'w \<Rightarrow> 'r
     \<Rightarrow> ((nat \<times> io_error option) \<times> 'w \<times> 'r) option" where
  "CopyWithContext fuel ctx wr rd dst src = copy_loop fuel ctx wr rd 0 dst src 0"

text \<open>
  A context that is cancelled between its checks \<open>n - 1\<close> and \<open>n\<close>: the first \<open>n\<close> checks find
  it live, and from check \<open>n\<close> on it is done with the error \<open>e\<close> (a context that is done stays
  done).
\<close>

definition done_from :: "nat \<Rightarrow> ctx_error \<Rightarrow> nat \<Rightarrow> ctx_error option" where
  "done_from n e k = (if k < n then None else Some e)"

text \<open>
  The token bucket of \<open>ThrottledReader\<close> and \<open>ThrottledWriter\<close>. Time enters through
  \<open>time.Now ()\<close>, read once per call of \<open>Read\<close> and once per iteration of \<open>Write\<close>: \<open>clock k\<close> is
  the time in nanoseconds that the program itself takes between the reading before and the
  \<open>k\<close>-th reading, and \<open>slept\<close> records that \<open>time.Sleep (10 * time.Millisecond)\<close> ran in between,
  which adds its 10 ms. The refill is \<open>int64 (elapsed * float64 (bytesPerSec))\<close>, the product
  truncated; \<open>lastTime\<close> is set to the reading every time, so what the truncation drops is
  lost. Rounding of \<open>float64\<close> and overflow of \<open>int64\<close> are not modelled.
\<close>

record 'a throttled =
  inner :: 'a
  bytesPerSec :: nat
  bucket :: nat
  slept :: bool
  tick :: nat

definition sleep_ns :: nat where "sleep_ns = 10 * 1000 * 1000"

text \<open>\<open>NewThrottledReader\<close> and \<open>NewThrottledWriter\<close> with a positive limit: a full bucket.\<close>

definition NewThrottled :: "'a \<Rightarrow> nat \<Rightarrow> 'a throttled" where
  "NewThrottled x bps = \<lparr>inner = x, bytesPerSec = bps, bucket = bps, slept = False, tick = 0\<rparr>"

definition refill :: "(nat \<Rightarrow> nat) \<Rightarrow> 'a throttled \<Rightarrow> nat" where
  "refill clock t =
     (let elapsed = clock (tick t) + (if slept t then sleep_ns else 0);
          b = bucket t + (elapsed * bytesPerSec t) div 1000000000
      in if b > bytesPerSec t then bytesPerSec t else b)"

definition ThrottledReader_Read :: "(nat \<Rightarrow> nat) \<Rightarrow> 'r reader \<Rightarrow> ('r throttled) reader" where
  "ThrottledReader_Read clock rd t n =
     (let b = refill clock t;
          toRead = (if n > b then b else n)
      in if toRead = 0
         then ([], None, t\<lparr>bucket := b, slept := True, tick := Suc (tick t)\<rparr>)
         else (case rd (inner t) toRead of (buf, err, r') \<Rightarrow>
                 (buf, err, t\<lparr>inner := r', bucket := b - length buf, slept := False,
                             tick := Suc (tick t)\<rparr>)))"

text \<open>
  \<open>ThrottledWriter.Write\<close>: the loop \<open>for written < len (p)\<close>, counted down from \<open>fuel\<close> as
  above.
\<close>

fun write_loop ::
  "nat \<Rightarrow> (nat \<Rightarrow> nat) \<Rightarrow> 'w writer \<Rightarrow> 'w throttled \<Rightarrow> byte list \<Rightarrow> nat
     \<Rightarrow> (nat \<times> io_error option \<times> 'w throttled) option" where
  "write_loop 0 clock wr t p written = None"
| "write_loop (Suc fuel) clock wr t p written =
     (if \<not> written < length p then Some (written, None, t)
      else
        let b = refill clock t;
            remaining = length p - written;
            toWrite = (if remaining > b then b else remaining)
        in if toWrite = 0
           then write_loop fuel clock wr
                  (t\<lparr>bucket := b, slept := True, tick := Suc (tick t)\<rparr>) p written
           else (case wr (inner t) (take toWrite (drop written p)) of (n, err, w') \<Rightarrow>
                   let t' = t\<lparr>inner := w', bucket := b - n, slept := False,
                              tick := Suc (tick t)\<rparr>
                   in (case err of
                         Some e \<Rightarrow> Some (written + n, Some e, t')
                       | None \<Rightarrow> write_loop fuel clock wr t' p (written + n))))"

definition ThrottledWriter_Write ::
  "nat \<Rightarrow> (nat \<Rightarrow> nat) \<Rightarrow> 'w writer \<Rightarrow> 'w throttled \<Rightarrow> byte list
     \<Rightarrow> (nat \<times> io_error option \<times> 'w throttled) option" where
  "ThrottledWriter_Write fuel clock wr t p = write_loop fuel clock wr t p 0"

section \<open>Transfer orchestrator (package file, commands get and put)\<close>

text \<open>
  Errors of the transfer engine are the texts Go's \<open>error\<close> values print (\<open>fmt.Errorf\<close> with
  \<open>%w\<close> puts the text of the wrapped error in its place): the code tests one of them with
  \<open>strings.Contains\<close>, and collects them in \<open>TransferResult.Errors\<close>.
\<close>

type_synonym err = string

record TransferOptions =
  Recursive :: bool
  Limit :: int
  Quiet :: bool
  Force :: bool
  DryRun :: bool
  ShowProgress :: bool

record TransferResult =
  FilesTransferred :: int
  BytesTransferred :: int
  Errors :: "err list"

text \<open>
  What a call does to the outside is recorded, in order, in a trace of events: the calls on the
  API client (network), the calls on the local filesystem, and the lines printed (the format
  and its arguments; a size stands for itself or for \<open>FormatBytes\<close> of it). The progress bar's
  own drawing is left out. An event is a mutation when it changes the device or the local
  disk: \<open>DownloadFile\<close> is counted as one, since a download that is not wanted is traffic the
  dry run is there to avoid.
\<close>

datatype arg = Str string | Size int

datatype event =
    CheckDeviceOnline string
  | StatFile string string
  | ListFiles string string
  | DownloadFile string string
  | UploadFile string string int
  | MkdirOnDevice string string
  | OsStat string
  | OsMkdirAll string
  | OsCreate string
  | OsWrite string int
  | OsOpen string
  | OsReadDir string
  | OsReadAll string
  | EntryInfo string
  | Printf string "arg list"

fun is_network :: "event \<Rightarrow> bool" where
  "is_network (CheckDeviceOnline d) = True"
| "is_network (StatFile d p) = True"
| "is_network (ListFiles d p) = True"
| "is_network (DownloadFile d p) = True"
| "is_network (UploadFile d p n) = True"
| "is_network (MkdirOnDevice d p) = True"
| "is_network e = False"

fun is_filesystem :: "event \<Rightarrow> bool" where
  "is_filesystem (OsStat p) = True"
| "is_filesystem (OsMkdirAll p) = True"
| "is_filesystem (OsCreate p) = True"
| "is_filesystem (OsWrite p n) = True"
| "is_filesystem (OsOpen p) = True"
| "is_filesystem (OsReadDir p) = True"
| "is_filesystem (OsReadAll p) = True"
| "is_filesystem (EntryInfo p) = True"
| "is_filesystem e = False"

fun is_mutation :: "event \<Rightarrow> bool" where
  "is_mutation (DownloadFile d p) = True"
| "is_mutation (UploadFile d p n) = True"
| "is_mutation (MkdirOnDevice d p) = True"
| "is_mutation (OsMkdirAll p) = True"
| "is_mutation (OsCreate p) = True"
| "is_mutation (OsWrite p n) = True"
| "is_mutation e = False"

text \<open>The state a call threads: the \<open>*TransferResult\<close> it fills in, and the trace.\<close>

record run =
  result :: TransferResult
  trace :: "event list"

definition emit :: "event \<Rightarrow> run \<Rightarrow> run" where
  "emit e st = st\<lparr>trace := trace st @ [e]\<rparr>"

definition record_error :: "err \<Rightarrow> run \<Rightarrow> run" where
  "record_error e st = st\<lparr>result := (result st)\<lparr>Errors := Errors (result st) @ [e]\<rparr>\<rparr>"

definition count_file :: "int \<Rightarrow> run \<Rightarrow> run" where
  "count_file n st = st\<lparr>result := (result st)\<lparr>FilesTransferred := FilesTransferred (result st) + 1,
       BytesTransferred := BytesTransferred (result st) + n\<rparr>\<rparr>"

text \<open>
  \<open>parse.go\<close>. The functions of Go's \<open>path/filepath\<close> (\<open>Join\<close>, \<open>Base\<close>, \<open>Dir\<close> and the
  separator, which depend on the platform) are parameters, held in a record.
\<close>

record filepath =
  Join :: "string \<Rightarrow> string \<Rightarrow> string"
  Base :: "string \<Rightarrow> string"
  Dir :: "string \<Rightarrow> string"
  Separator :: string

definition BaseName :: "filepath \<Rightarrow> string \<Rightarrow> string" where
  "BaseName fp path = Base fp (TrimSuffix path ''/'')"

definition IsDirectory :: "string \<Rightarrow> bool" where
  "IsDirectory path = HasSuffix path ''/''"

definition JoinRemotePath :: "string \<Rightarrow> string \<Rightarrow> string" where
  "JoinRemotePath base name = (if HasSuffix base ''/'' then base @ name else base @ ''/'' @ name)"

definition ResolveLocalDestination :: "filepath \<Rightarrow> string \<Rightarrow> string \<Rightarrow> string" where
  "ResolveLocalDestination fp remotePath localDest =
     (let baseName = BaseName fp remotePath in
      if localDest = [] then ''./'' @ baseName
      else if IsDirectory localDest \<or> HasSuffix localDest (Separator fp)
      then Join fp localDest baseName
      else localDest)"

definition ResolveRemoteDestination :: "filepath \<Rightarrow> string \<Rightarrow> string \<Rightarrow> string" where
  "ResolveRemoteDestination fp localPath remotePath =
     (if IsDirectory remotePath then JoinRemotePath remotePath (BaseName fp localPath)
      else remotePath)"

text \<open>\<open>strings.Contains\<close>.\<close>

fun Contains :: "string \<Rightarrow> string \<Rightarrow> bool" where
  "Contains [] sub = (sub = [])"
| "Contains (c # s) sub = (take (length sub) (c # s) = sub \<or> Contains s sub)"

text \<open>
  The remote side as the download sees it: a tree of entries. A file carries its name, the
  size the listing gives, and what the environment answers when the file is downloaded: whether
  the local file exists already (\<open>os.Stat\<close> without error), the errors of \<open>os.MkdirAll\<close>, of
  \<open>client.DownloadFile\<close> (or the content length) and of \<open>os.Create\<close>, and what
  \<open>CopyWithContext\<close> returns (bytes written, error). A directory carries its name, the error of
  \<open>client.ListFiles\<close> if any, the error of \<open>os.MkdirAll\<close> for its local mirror if any, and its
  entries.
\<close>

record file_env =
  local_exists :: bool
  mkdirall_err :: "err option"
  download_res :: "err + int"
  create_err :: "err option"
  copy_res :: "int \<times> err option"

datatype rnode =
    RFile string int file_env
  | RDir string "err option" "err option" "rnode list"

text \<open>\<open>downloadFile\<close>. The function returns its error; the result and trace are in the state.\<close>

definition downloadFile ::
  "filepath \<Rightarrow> TransferOptions \<Rightarrow> string \<Rightarrow> string \<Rightarrow> string \<Rightarrow> int \<Rightarrow> file_env \<Rightarrow> run
     \<Rightarrow> err option \<times> run" where
  "downloadFile fp opts deviceID remotePath localPath0 size0 env st =
     (let localPath = ResolveLocalDestination fp remotePath localPath0 in
      if DryRun opts
      then (None, emit (Printf ''Would download: %s -> %s (%s)\<newline>''
                          [Str remotePath, Str localPath, Size size0]) st)
      else
        let st1 = (if \<not> Force opts then emit (OsStat localPath) st else st) in
        if \<not> Force opts \<and> local_exists env
        then (Some (''file '' @ localPath @ '' already exists, use --force to overwrite''), st1)
        else
          let dir = Dir fp localPath;
              st2 = emit (OsMkdirAll dir) st1 in
          case mkdirall_err env of
            Some e \<Rightarrow> (Some (''failed to create directory '' @ dir @ '': '' @ e), st2)
          | None \<Rightarrow>
              let st3 = emit (DownloadFile deviceID remotePath) st2 in
              (case download_res env of
                 Inl e \<Rightarrow> (Some e, st3)
               | Inr contentLength \<Rightarrow>
                   let size1 = (if contentLength > 0 then contentLength else size0);
                       st4 = emit (OsCreate localPath) st3 in
                   (case create_err env of
                      Some e \<Rightarrow> (Some (''failed to create file '' @ localPath @ '': '' @ e), st4)
                    | None \<Rightarrow>
                        let (written, cerr) = copy_res env;
                            st5 = emit (OsWrite localPath written) st4 in
                        (case cerr of
                           Some e \<Rightarrow> (Some (''failed to download file: '' @ e), st5)
                         | None \<Rightarrow>
                             let st6 = count_file written st5 in
                             (None,
                              if Quiet opts then st6
                              else if \<not> ShowProgress opts
                              then emit (Printf ''  %s  %s\<newline>''
                                           [Str (BaseName fp remotePath), Size written]) st6
                              else st6)))))"

text \<open>
  \<open>downloadDirectory\<close>, and its \<open>for\<close> loop over the listing as \<open>download_entries\<close>: an error of
  an entry is appended to \<open>result.Errors\<close> and the loop goes on (\<open>continue\<close>) under \<open>Force\<close>, and
  is returned at once otherwise.
\<close>

function (sequential) downloadDirectory ::
  "filepath \<Rightarrow> TransferOptions \<Rightarrow> string \<Rightarrow> err option \<Rightarrow> err option \<Rightarrow> rnode list
     \<Rightarrow> string \<Rightarrow> string \<Rightarrow> run \<Rightarrow> err option \<times> run"
and download_entries ::
  "filepath \<Rightarrow> TransferOptions \<Rightarrow> string \<Rightarrow> rnode list \<Rightarrow> string \<Rightarrow> string \<Rightarrow> run
     \<Rightarrow> err option \<times> run" where
  "downloadDirectory fp opts deviceID list_err mkdir_err files remotePath localPath0 st =
     (let st1 = emit (ListFiles deviceID remotePath) st in
      case list_err of
        Some e \<Rightarrow> (Some (''failed to list directory: '' @ e), st1)
      | None \<Rightarrow>
          let localPath =
                (if localPath0 = [] then ''./'' @ BaseName fp remotePath
                 else if IsDirectory localPath0 then Join fp localPath0 (BaseName fp remotePath)
                 else localPath0)
          in if DryRun opts
             then download_entries fp opts deviceID files remotePath localPath
                    (emit (Printf ''Would create directory: %s\<newline>'' [Str localPath]) st1)
             else
               let st2 = emit (OsMkdirAll localPath) st1 in
               (case mkdir_err of
                  Some e \<Rightarrow> (Some (''failed to create directory '' @ localPath @ '': '' @ e), st2)
                | None \<Rightarrow> download_entries fp opts deviceID files remotePath localPath st2))"
| "download_entries fp opts deviceID [] remotePath localPath st = (None, st)"
| "download_entries fp opts deviceID (f # fs) remotePath localPath st =
     (case (case f of
              RDir name list_err mkdir_err children \<Rightarrow>
                downloadDirectory fp opts deviceID list_err mkdir_err children
                  (JoinRemotePath remotePath name) (Join fp localPath name) st
            | RFile name size0 env \<Rightarrow>
                downloadFile fp opts deviceID (JoinRemotePath remotePath name)
                  (Join fp localPath name) size0 env st) of
        (Some e, st') \<Rightarrow>
          if Force opts
          then download_entries fp opts deviceID fs remotePath localPath (record_error e st')
          else (Some e, st')
      | (None, st') \<Rightarrow> download_entries fp opts deviceID fs remotePath localPath st')"
  by pat_completeness auto
termination
  by (relation "measure (\<lambda>x. case x of
          Inl (fp, opts, deviceID, list_err, mkdir_err, files, rest) \<Rightarrow> 2 * size_list size files + 1
        | Inr (fp, opts, deviceID, fs, rest) \<Rightarrow> 2 * size_list size fs)") auto

text \<open>
  \<open>Download\<close>: what \<open>CheckDeviceOnline\<close> and \<open>StatFile\<close> answer, then the file or the directory.
  It returns the pair \<open>(result, err)\<close> (\<open>result\<close> is \<open>nil\<close> on the early errors) and the trace.
\<close>

record download_env =
  online_err :: "err option"
  stat_res :: "err + rnode"

definition new_run :: "event list \<Rightarrow> run" where
  "new_run tr = \<lparr>result = \<lparr>FilesTransferred = 0, BytesTransferred = 0, Errors = []\<rparr>, trace = tr\<rparr>"

definition Download ::
  "filepath \<Rightarrow> download_env \<Rightarrow> TransferOptions \<Rightarrow> string \<Rightarrow> string \<Rightarrow> string
     \<Rightarrow> (TransferResult option \<times> err option) \<times> event list" where
  "Download fp env opts deviceID remotePath localPath =
     (let tr1 = [CheckDeviceOnline deviceID] in
      case online_err env of
        Some e \<Rightarrow> ((None, Some e), tr1)
      | None \<Rightarrow>
          let tr2 = tr1 @ [StatFile deviceID remotePath] in
          (case stat_res env of
             Inl e \<Rightarrow> ((None, Some (''failed to stat remote path: '' @ e)), tr2)
           | Inr info \<Rightarrow>
               (case info of
                  RDir name list_err mkdir_err files \<Rightarrow>
                    if \<not> Recursive opts
                    then ((None, Some (remotePath @ '' is a directory, use -r flag for recursive download'')),
                          tr2)
                    else (case downloadDirectory fp opts deviceID list_err mkdir_err files
                                 remotePath localPath (new_run tr2) of
                            (e, st) \<Rightarrow> ((Some (result st), e), trace st))
                | RFile name size0 fenv \<Rightarrow>
                    (case downloadFile fp opts deviceID remotePath localPath size0 fenv (new_run tr2) of
                       (e, st) \<Rightarrow> ((Some (result st), e), trace st)))))"

text \<open>
  The local side as the upload sees it. A file carries its name, the error of \<open>entry.Info ()\<close>
  if any (asked only inside a directory), its size, and the answers of \<open>os.Open\<close>,
  \<open>io.ReadAll\<close> (with the length of the content read) and \<open>client.UploadFile\<close>. A directory
  carries its name, the errors of \<open>client.MkdirOnDevice\<close> and of \<open>os.ReadDir\<close> if any, and its
  entries.
\<close>

record up_env =
  open_err :: "err option"
  readall_err :: "err option"
  content_len :: int
  upload_err :: "err option"

datatype lnode =
    LFile string "err option" int up_env
  | LDir string "err option" "err option" "lnode list"

definition uploadFile ::
  "filepath \<Rightarrow> TransferOptions \<Rightarrow> string \<Rightarrow> string \<Rightarrow> string \<Rightarrow> int \<Rightarrow> up_env \<Rightarrow> run
     \<Rightarrow> err option \<times> run" where
  "uploadFile fp opts localPath deviceID remotePath size0 env st =
     (if DryRun opts
      then (None, emit (Printf ''Would upload: %s -> %s:%s (%s)\<newline>''
                          [Str localPath, Str deviceID, Str remotePath, Size size0]) st)
      else
        let st1 = emit (OsOpen localPath) st in
        case open_err env of
          Some e \<Rightarrow> (Some (''failed to open file '' @ localPath @ '': '' @ e), st1)
        | None \<Rightarrow>
            let st2 = emit (OsReadAll localPath) st1 in
            (case readall_err env of
               Some e \<Rightarrow> (Some (''failed to read file: '' @ e), st2)
             | None \<Rightarrow>
                 let st3 = emit (UploadFile deviceID remotePath (content_len env)) st2 in
                 (case upload_err env of
                    Some e \<Rightarrow> (Some e, st3)
                  | None \<Rightarrow>
                      let st4 = count_file size0 st3 in
                      (None,
                       if Quiet opts then st4
                       else if \<not> ShowProgress opts
                       then emit (Printf ''  %s  %s  -> %s\<newline>''
                                    [Str (BaseName fp localPath), Size size0, Str remotePath]) st4
                       else st4))))"

text \<open>
  \<open>uploadDirectory\<close> and its loop, \<open>upload_entries\<close>. Two parts of them stand on their own: the
  test after \<open>MkdirOnDevice\<close>, which lets an error pass when its text contains \<open>exists\<close>, and
  the branch of the loop for an entry that is not a directory.
\<close>

definition mkdir_failure :: "TransferOptions \<Rightarrow> err option \<Rightarrow> err option" where
  "mkdir_failure opts mkdir_err =
     (if DryRun opts then None
      else (case mkdir_err of
              Some e \<Rightarrow> if \<not> Contains e ''exists''
                        then Some (''failed to create directory: '' @ e) else None
            | None \<Rightarrow> None))"

definition upload_file_entry ::
  "filepath \<Rightarrow> TransferOptions \<Rightarrow> string \<Rightarrow> err option \<Rightarrow> int \<Rightarrow> up_env
     \<Rightarrow> string \<Rightarrow> string \<Rightarrow> string \<Rightarrow> run \<Rightarrow> err option \<times> run" where
  "upload_file_entry fp opts name info_err size0 env localPath deviceID destPath st =
     (let st1 = emit (EntryInfo (Join fp localPath name)) st in
      case info_err of
        Some e \<Rightarrow> (Some e, st1)
      | None \<Rightarrow>
          uploadFile fp opts (Join fp localPath name) deviceID
            (JoinRemotePath destPath name) size0 env st1)"

function (sequential) uploadDirectory ::
  "filepath \<Rightarrow> TransferOptions \<Rightarrow> err option \<Rightarrow> err option \<Rightarrow> lnode list
     \<Rightarrow> string \<Rightarrow> string \<Rightarrow> string \<Rightarrow> run \<Rightarrow> err option \<times> run"
and upload_entries ::
  "filepath \<Rightarrow> TransferOptions \<Rightarrow> lnode list \<Rightarrow> string \<Rightarrow> string \<Rightarrow> string \<Rightarrow> run
     \<Rightarrow> err option \<times> run" where
  "uploadDirectory fp opts mkdir_err readdir_err entries localPath deviceID remotePath st =
     (let destPath = (if IsDirectory remotePath
                      then JoinRemotePath remotePath (BaseName fp localPath) else remotePath);
          st1 = (if DryRun opts
                 then emit (Printf ''Would create directory: %s:%s\<newline>''
                              [Str deviceID, Str destPath]) st
                 else emit (MkdirOnDevice deviceID destPath) st)
      in case mkdir_failure opts mkdir_err of
           Some e \<Rightarrow> (Some e, st1)
         | None \<Rightarrow>
             let st2 = emit (OsReadDir localPath) st1 in
             (case readdir_err of
                Some e \<Rightarrow> (Some (''failed to read directory '' @ localPath @ '': '' @ e), st2)
              | None \<Rightarrow> upload_entries fp opts entries localPath deviceID destPath st2))"
| "upload_entries fp opts [] localPath deviceID destPath st = (None, st)"
| "upload_entries fp opts (entry # es) localPath deviceID destPath st =
     (case (case entry of
              LDir name mkdir_err readdir_err children \<Rightarrow>
                uploadDirectory fp opts mkdir_err readdir_err children
                  (Join fp localPath name) deviceID (JoinRemotePath destPath name) st
            | LFile name info_err size0 env \<Rightarrow>
                upload_file_entry fp opts name info_err size0 env localPath deviceID destPath st) of
        (Some e, st') \<Rightarrow>
          if Force opts
          then upload_entries fp opts es localPath deviceID destPath (record_error e st')
          else (Some e, st')
      | (None, st') \<Rightarrow> upload_entries fp opts es localPath deviceID destPath st')"
  by pat_completeness auto
termination
  by (relation "measure (\<lambda>x. case x of
          Inl (fp, opts, mkdir_err, readdir_err, entries, rest) \<Rightarrow> 2 * size_list size entries + 1
        | Inr (fp, opts, es, rest) \<Rightarrow> 2 * size_list size es)") auto

text \<open>
  \<open>Upload\<close>: \<open>stat_local\<close> is what \<open>os.Stat\<close> finds at a local path. The loop over the local
  paths, \<open>upload_paths\<close>, returns the first error.
\<close>

record upload_env =
  up_online_err :: "err option"
  stat_local :: "string \<Rightarrow> err + lnode"

fun upload_paths ::
  "filepath \<Rightarrow> upload_env \<Rightarrow> TransferOptions \<Rightarrow> string list \<Rightarrow> string \<Rightarrow> string \<Rightarrow> run
     \<Rightarrow> err option \<times> run" where
  "upload_paths fp env opts [] deviceID remotePath st = (None, st)"
| "upload_paths fp env opts (localPath # ps) deviceID remotePath st =
     (let st1 = emit (OsStat localPath) st in
      case stat_local env localPath of
        Inl e \<Rightarrow> (Some (''failed to stat local path '' @ localPath @ '': '' @ e), st1)
      | Inr info \<Rightarrow>
          (case (case info of
                   LDir name mkdir_err readdir_err entries \<Rightarrow>
                     if \<not> Recursive opts
                     then (Some (localPath @ '' is a directory, use -r flag for recursive upload''), st1)
                     else uploadDirectory fp opts mkdir_err readdir_err entries
                            localPath deviceID remotePath st1
                 | LFile name info_err size0 fenv \<Rightarrow>
                     uploadFile fp opts localPath deviceID
                       (ResolveRemoteDestination fp localPath remotePath) size0 fenv st1) of
             (Some e, st') \<Rightarrow> (Some e, st')
           | (None, st') \<Rightarrow> upload_paths fp env opts ps deviceID remotePath st'))"

definition Upload ::
  "filepath \<Rightarrow> upload_env \<Rightarrow> TransferOptions \<Rightarrow> string list \<Rightarrow> string \<Rightarrow> string
     \<Rightarrow> (TransferResult option \<times> err option) \<times> event list" where
  "Upload fp env opts localPaths deviceID remotePath =
     (let tr1 = [CheckDeviceOnline deviceID] in
      case up_online_err env of
        Some e \<Rightarrow> ((None, Some e), tr1)
      | None \<Rightarrow>
          (case upload_paths fp env opts localPaths deviceID remotePath (new_run tr1) of
             (e, st) \<Rightarrow> ((Some (result st), e), trace st)))"

text \<open>\<open>ParseRemotePath\<close> and \<open>IsRemotePath\<close>; \<open>Index\<close> is \<open>strings.Index\<close> for one character.\<close>

datatype path_error = MissingColon string | EmptyDeviceID string | EmptyPath string | NotAbsolute string

record RemotePath =
  DeviceID :: string
  Path :: string

definition Index :: "string \<Rightarrow> char \<Rightarrow> int" where
  "Index s c = (if c \<in> set s then int (length (takeWhile (\<lambda>x. x \<noteq> c) s)) else - 1)"

definition HasPrefix :: "string \<Rightarrow> string \<Rightarrow> bool" where
  "HasPrefix s pre \<longleftrightarrow> take (length pre) s = pre"

definition ParseRemotePath :: "string \<Rightarrow> path_error + RemotePath" where
  "ParseRemotePath s =
     (let idx = Index s CHR '':'' in
      if idx = - 1 then Inl (MissingColon s)
      else
        let deviceID = take (nat idx) s;
            path = drop (nat idx + 1) s
        in if deviceID = [] then Inl (EmptyDeviceID s)
           else if path = [] then Inl (EmptyPath s)
           else if \<not> HasPrefix path ''/'' then Inl (NotAbsolute s)
           else Inr \<lparr>DeviceID = deviceID, Path = path\<rparr>)"

definition IsRemotePath :: "string \<Rightarrow> bool" where
  "IsRemotePath s =
     (let idx = Index s CHR '':'' in
      if idx = - 1 then False
      else if idx = 1 \<and> length s > 2 \<and> s ! 2 = CHR 0x5C then False
      else True)"

text \<open>
  The command \<open>put\<close>. \<open>cobra.MinimumNArgs (2)\<close> refuses fewer than two arguments before
  \<open>runPut\<close> runs. The flags are what \<open>cmd.Flags ()\<close> holds; \<open>isTerminal\<close>, \<open>IsQuiet\<close> and the
  outcome of \<open>api.NewClient\<close> come from the environment. The trace holds the events of the
  transfer and the lines of the command itself.
\<close>

record put_flags =
  flag_recursive :: bool
  flag_limit :: string
  flag_progress :: bool
  flag_force :: bool
  flag_dry_run :: bool

record cli_env =
  isTerminal :: bool
  IsQuiet :: bool
  NewClient_err :: "err option"

datatype cli_error =
    TooFewArguments
  | InvalidDestination string
  | BadRemotePath path_error
  | LocalPathNotFound string err
  | DestinationNotDirectory
  | BadLimit bw_error
  | ClientFailed err
  | UploadFailed err

datatype cli_event = Transfer event | NewClient | Stdout string "arg list" | Stderr string "arg list"

fun stat_all :: "upload_env \<Rightarrow> string list \<Rightarrow> cli_event list \<Rightarrow> cli_error option \<times> cli_event list" where
  "stat_all env [] tr = (None, tr)"
| "stat_all env (p # ps) tr =
     (case stat_local env p of
        Inl e \<Rightarrow> (Some (LocalPathNotFound p e), tr @ [Transfer (OsStat p)])
      | Inr info \<Rightarrow> stat_all env ps (tr @ [Transfer (OsStat p)]))"

definition put_summary :: "cli_env \<Rightarrow> put_flags \<Rightarrow> TransferResult \<Rightarrow> cli_event list" where
  "put_summary cenv flags r =
     (if \<not> IsQuiet cenv
      then (if flag_dry_run flags
            then [Stdout ''\<newline>Dry run complete. Would transfer %d file(s).\<newline>''
                    [Size (FilesTransferred r)]]
            else [Stdout ''\<newline>Uploaded %d file(s), %s total\<newline>''
                    [Size (FilesTransferred r), Size (BytesTransferred r)]])
      else [])
     @ (if length (Errors r) > 0
        then Stderr ''\<newline>Warnings (%d):\<newline>'' [Size (int (length (Errors r)))]
             # map (\<lambda>e. Stderr ''  - %v\<newline>'' [Str e]) (Errors r)
        else [])"

definition put_upload ::
  "filepath \<Rightarrow> cli_env \<Rightarrow> upload_env \<Rightarrow> put_flags \<Rightarrow> int \<Rightarrow> string list \<Rightarrow> RemotePath
     \<Rightarrow> cli_event list \<Rightarrow> cli_error option \<times> cli_event list" where
  "put_upload fp cenv env flags lmt localPaths remote tr1 =
     (let showProgress = (if \<not> isTerminal cenv then False else flag_progress flags);
          opts = \<lparr>Recursive = flag_recursive flags, Limit = lmt, Quiet = IsQuiet cenv,
                  Force = flag_force flags, DryRun = flag_dry_run flags, ShowProgress = showProgress\<rparr>;
          tr2 = tr1 @ [NewClient]
      in case NewClient_err cenv of
           Some e \<Rightarrow> (Some (ClientFailed e), tr2)
         | None \<Rightarrow>
             let tr3 = (if \<not> IsQuiet cenv \<and> \<not> flag_dry_run flags
                        then tr2 @ [Stdout ''Uploading to %s...\<newline>'' [Str (DeviceID remote)]]
                        else tr2)
             in (case Upload fp env opts localPaths (DeviceID remote) (Path remote) of
                   ((res, Some e), utr) \<Rightarrow> (Some (UploadFailed e), tr3 @ map Transfer utr)
                 | ((res, None), utr) \<Rightarrow>
                     (None, tr3 @ map Transfer utr
                            @ (case res of Some r \<Rightarrow> put_summary cenv flags r | None \<Rightarrow> []))))"

definition runPut ::
  "(string \<Rightarrow> num_error + float64) \<Rightarrow> (float64 \<Rightarrow> int) \<Rightarrow> filepath \<Rightarrow> cli_env \<Rightarrow> upload_env
     \<Rightarrow> put_flags \<Rightarrow> string list \<Rightarrow> cli_error option \<times> cli_event list" where
  "runPut ParseFloat impl fp cenv env flags args =
     (if length args < 2 then (Some TooFewArguments, [])
      else
        let dest = last args;
            localPaths = butlast args
        in if \<not> IsRemotePath dest then (Some (InvalidDestination dest), [])
           else
             case ParseRemotePath dest of
               Inl e \<Rightarrow> (Some (BadRemotePath e), [])
             | Inr remote \<Rightarrow>
                 (case stat_all env localPaths [] of
                    (Some e, tr1) \<Rightarrow> (Some e, tr1)
                  | (None, tr1) \<Rightarrow>
                      if length localPaths > 1 \<and> \<not> IsDirectory (Path remote)
                      then (Some DestinationNotDirectory, tr1)
                      else
                        (case ParseBandwidthLimit ParseFloat impl (flag_limit flags) of
                           Inl e \<Rightarrow> (Some (BadLimit e), tr1)
                         | Inr lmt \<Rightarrow> put_upload fp cenv env flags lmt localPaths remote tr1)))"

subsection \<open>One entry of a directory\<close>

text \<open>
  What the body of each loop does with one entry, before the error is looked at: the
  directory or the file branch.
\<close>

definition download_entry ::
  "filepath \<Rightarrow> TransferOptions \<Rightarrow> string \<Rightarrow> rnode \<Rightarrow> string \<Rightarrow> string \<Rightarrow> run
     \<Rightarrow> err option \<times> run" where
  "download_entry fp opts deviceID f remotePath localPath st =
     (case f of
        RDir name list_err mkdir_err children \<Rightarrow>
          downloadDirectory fp opts deviceID list_err mkdir_err children
            (JoinRemotePath remotePath name) (Join fp localPath name) st
      | RFile name size0 env \<Rightarrow>
          downloadFile fp opts deviceID (JoinRemotePath remotePath name)
            (Join fp localPath name) size0 env st)"

definition upload_entry ::
  "filepath \<Rightarrow> TransferOptions \<Rightarrow> lnode \<Rightarrow> string \<Rightarrow> string \<Rightarrow> string \<Rightarrow> run
     \<Rightarrow> err option \<times> run" where
  "upload_entry fp opts entry localPath deviceID destPath st =
     (case entry of
        LDir name mkdir_err readdir_err children \<Rightarrow>
          uploadDirectory fp opts mkdir_err readdir_err children
            (Join fp localPath name) deviceID (JoinRemotePath destPath name) st
      | LFile name info_err size0 env \<Rightarrow>
          upload_file_entry fp opts name info_err size0 env localPath deviceID destPath st)"

subsection \<open>Relations between the state before and after\<close>

text \<open>
  \<open>keeps\<close>: the later state has the earlier one's errors and events, and possibly more; nothing
  is removed from the error list or from the trace.
\<close>

definition keeps :: "run \<Rightarrow> run \<Rightarrow> bool" where
  "keeps st st' \<longleftrightarrow> prefix (Errors (result st)) (Errors (result st')) \<and> prefix (trace st) (trace st')"

text \<open>
  \<open>dry_ok\<close>: neither counter of the result has moved, and the events added are no mutations.
\<close>

definition dry_ok :: "run \<Rightarrow> run \<Rightarrow> bool" where
  "dry_ok st st' \<longleftrightarrow>
     FilesTransferred (result st') = FilesTransferred (result st)
     \<and> BytesTransferred (result st') = BytesTransferred (result st)
     \<and> (\<exists>tr. trace st' = trace st @ tr \<and> list_all (\<lambda>e. \<not> is_mutation e) tr)"

subsection \<open>Environments for the examples\<close>

text \<open>
  A plain stand-in for \<open>path/filepath\<close> on Unix (no cleaning of the joined path), a file whose
  download or upload succeeds with \<open>n\<close> bytes, one whose transfer fails with an error, and the
  options of a recursive transfer with every other flag off.
\<close>

definition unix_filepath :: filepath where
  "unix_filepath =
     \<lparr>Join = (\<lambda>a b. a @ ''/'' @ b),
      Base = (\<lambda>p. rev (takeWhile (\<lambda>c. c \<noteq> CHR ''/'') (rev p))),
      Dir = (\<lambda>p. rev (drop 1 (dropWhile (\<lambda>c. c \<noteq> CHR ''/'') (rev p)))),
      Separator = ''/''\<rparr>"

definition good_download :: "int \<Rightarrow> file_env" where
  "good_download n =
     \<lparr>local_exists = False, mkdirall_err = None, download_res = Inr n, create_err = None,
      copy_res = (n, None)\<rparr>"

definition bad_download :: "err \<Rightarrow> file_env" where
  "bad_download e =
     \<lparr>local_exists = False, mkdirall_err = None, download_res = Inl e, create_err = None,
      copy_res = (0, None)\<rparr>"

definition good_upload :: "int \<Rightarrow> up_env" where
  "good_upload n = \<lparr>open_err = None, readall_err = None, content_len = n, upload_err = None\<rparr>"

definition bad_upload :: "err \<Rightarrow> up_env" where
  "bad_upload e = \<lparr>open_err = None, readall_err = None, content_len = 0, upload_err = Some e\<rparr>"

definition plain_opts :: TransferOptions where
  "plain_opts = \<lparr>Recursive = True, Limit = 0, Quiet = False, Force = False, DryRun = False,
                  ShowProgress = False\<rparr>"

text \<open>
  A local side on which every path is a regular file of 5 bytes that uploads without error, a
  command line without a terminal, and the flags of \<open>put\<close> at their defaults.
\<close>

definition one_file_env :: upload_env where
  "one_file_env =
     \<lparr>up_online_err = None, stat_local = (\<lambda>p. Inr (LFile p None 5 (good_upload 5)))\<rparr>"

definition demo_cli :: cli_env where
  "demo_cli = \<lparr>isTerminal = False, IsQuiet = False, NewClient_err = None\<rparr>"

definition demo_flags :: put_flags where
  "demo_flags = \<lparr>flag_recursive = False, flag_limit = [], flag_progress = True, flag_force = False,
                  flag_dry_run = False\<rparr>"

section \<open>Properties: binary message codec\<close>

subsection \<open>Facts about the codec\<close>

lemma Uint32_PutUint32: "Uint32 (PutUint32 v @ rest) = v"
proof (rule bit_word_eqI)
  fix n assume n: "n < LENGTH(32)"
  have c: "n < 8 \<or> (8 \<le> n \<and> n < 16) \<or> (16 \<le> n \<and> n < 24) \<or> (24 \<le> n \<and> n < 32)"
    using n by auto
  show "bit (Uint32 (PutUint32 v @ rest)) n = bit v n"
    using c unfolding Uint32_def PutUint32_def
    by (elim disjE conjE) (auto simp: bit_simps nth_append)
qed

lemma Uint64_PutUint64: "Uint64 (PutUint64 v @ rest) = v"
proof (rule bit_word_eqI)
  fix n assume n: "n < LENGTH(64)"
  have c: "n < 8 \<or> (8 \<le> n \<and> n < 16) \<or> (16 \<le> n \<and> n < 24) \<or> (24 \<le> n \<and> n < 32)
     \<or> (32 \<le> n \<and> n < 40) \<or> (40 \<le> n \<and> n < 48) \<or> (48 \<le> n \<and> n < 56) \<or> (56 \<le> n \<and> n < 64)"
    using n by auto
  show "bit (Uint64 (PutUint64 v @ rest)) n = bit v n"
    using c unfolding Uint64_def PutUint64_def
    by (elim disjE conjE) (auto simp: bit_simps nth_append)
qed

lemma length_PutUint32: "length (PutUint32 v) = 4"
  by (simp add: PutUint32_def)

lemma length_PutUint64: "length (PutUint64 v) = 8"
  by (simp add: PutUint64_def)

lemma length_copy_field: "length (copy_field n src) = n"
  by (simp add: copy_field_def)

lemma copy_field_exact: "length src = n \<Longrightarrow> copy_field n src = src"
  by (simp add: copy_field_def)

lemma trimNullBytes_takeWhile: "trimNullBytes b = takeWhile (\<lambda>c. c \<noteq> 0) b"
  by (induction b) simp_all

lemmas codec_len = length_PutUint32 length_PutUint64 length_copy_field
  HeaderLength_def MessageTypeLength_def MessageIDLength_def PayloadDigestLength_def

lemma length_BuildMessage:
  "length (BuildMessage H now rnd mt pt p sq) = 120 + length p"
  by (simp add: BuildMessage_def codec_len)

lemma uint32_of_nat: "uint (word_of_nat n :: 32 word) = int (n mod 2 ^ 32)"
  by (simp add: unsigned_of_nat take_bit_eq_mod)

lemma uint32_of_int: "uint (word_of_int i :: 32 word) = i mod 2 ^ 32"
  by (simp add: unsigned_of_int take_bit_eq_mod)

text \<open>What the parser reads back from a built frame, field by field.\<close>

lemma ParseMessage_BuildMessage:
  "ParseMessage (BuildMessage H now rnd mt pt p sq) =
     Inr \<lparr> HeaderLength_f = 120,
           MessageType = trimNullBytes (copy_field 32 mt),
           SchemaVersion = 1,
           CreatedDate = now,
           SequenceNumber = sq,
           Flags = 0,
           MessageID = copy_field 16 rnd,
           PayloadDigest = copy_field 32 (H p),
           PayloadType = pt mod 2 ^ 32,
           PayloadLength = int (length p mod 2 ^ 32),
           Payload = take (length p mod 2 ^ 32) p \<rparr>"
  apply (simp add: ParseMessage_def length_BuildMessage)
  apply (simp add: BuildMessage_def codec_len Uint32_PutUint32 Uint64_PutUint64 Let_def
       uint32_of_nat uint32_of_int SchemaVersion_const_def)
  done

lemma trimNullBytes_copy_field:
  "trimNullBytes (copy_field 32 mt) = takeWhile (\<lambda>c. c \<noteq> 0) (take 32 mt)"
proof (cases "\<forall>x \<in> set (take 32 mt). x \<noteq> 0")
  case True
  then have "takeWhile (\<lambda>c. c \<noteq> 0) (take 32 mt) = take 32 mt"
    by (simp only: takeWhile_eq_all_conv)
  moreover have "takeWhile (\<lambda>c. c \<noteq> (0::byte)) (replicate (32 - length mt) 0) = []"
    by (cases "32 - length mt") simp_all
  moreover have "takeWhile (\<lambda>c. c \<noteq> 0) (take 32 mt @ replicate (32 - length mt) 0)
      = take 32 mt @ takeWhile (\<lambda>c. c \<noteq> 0) (replicate (32 - length mt) 0)"
    using True by (intro takeWhile_append2) auto
  ultimately show ?thesis
    by (simp only: trimNullBytes_takeWhile copy_field_def append_Nil2)
next
  case False
  then obtain x where "x \<in> set (take 32 mt)" "\<not> x \<noteq> 0" by blast
  then show ?thesis
    by (simp add: trimNullBytes_takeWhile copy_field_def takeWhile_append1)
qed

lemma takeWhile_take_id:
  "takeWhile (\<lambda>c. c \<noteq> (0::byte)) (take 32 mt) = mt \<longleftrightarrow> length mt \<le> 32 \<and> 0 \<notin> set mt"
proof
  assume h: "takeWhile (\<lambda>c. c \<noteq> 0) (take 32 mt) = mt"
  have "length (takeWhile (\<lambda>c. c \<noteq> 0) (take 32 mt)) \<le> length (take 32 mt)"
    by (rule length_takeWhile_le)
  with h have l: "length mt \<le> 32" by simp
  have "\<forall>c \<in> set (takeWhile (\<lambda>c. c \<noteq> 0) (take 32 mt)). c \<noteq> 0"
    by (auto dest: set_takeWhileD)
  with h have "0 \<notin> set mt" by auto
  with l show "length mt \<le> 32 \<and> 0 \<notin> set mt" by simp
next
  assume a: "length mt \<le> 32 \<and> 0 \<notin> set mt"
  then have "\<forall>c \<in> set mt. c \<noteq> 0" by auto
  then have "takeWhile (\<lambda>c. c \<noteq> 0) mt = mt"
    by (simp only: takeWhile_eq_all_conv)
  with a show "takeWhile (\<lambda>c. c \<noteq> 0) (take 32 mt) = mt" by simp
qed

lemma ParseMessage_total: "length data \<ge> 120 \<Longrightarrow> \<exists>m. ParseMessage data = Inr m"
  by (simp add: ParseMessage_def HeaderLength_def Let_def)

lemma Uint32_take: "Uint32 (take 4 b) = Uint32 b"
  by (simp add: Uint32_def)

lemma Uint64_take: "Uint64 (take 8 b) = Uint64 b"
  by (simp add: Uint64_def)

lemma splice_before:
  "k + n \<le> 80 \<Longrightarrow> 80 \<le> length data \<Longrightarrow>
   take n (drop k (take 80 data @ rest)) = take n (drop k data)"
  by (simp add: drop_take)

lemma splice_after:
  "112 \<le> k \<Longrightarrow> 112 \<le> length data \<Longrightarrow> length d = 32 \<Longrightarrow>
   drop k (take 80 data @ d @ drop 112 data) = drop k data"
  by simp

lemma ParseMessage_no_digest_check:
  assumes l: "length data \<ge> 120" and d: "length d = 32"
  shows "ParseMessage (take 80 data @ d @ drop 112 data) =
           map_sum id (\<lambda>m. m\<lparr>PayloadDigest := d\<rparr>) (ParseMessage data)"
proof -
  let ?x = "take 80 data @ d @ drop 112 data"
  have l80: "80 \<le> length data" and l112: "112 \<le> length data" using l by simp_all
  have len: "length ?x = length data" using l d by simp
  have u32: "Uint32 (drop k ?x) = Uint32 (drop k data)" if "k + 4 \<le> 80" for k
    using splice_before [of k 4 data "d @ drop 112 data", OF that l80]
    by (metis Uint32_take)
  have u64: "Uint64 (drop k ?x) = Uint64 (drop k data)" if "k + 8 \<le> 80" for k
    using splice_before [of k 8 data "d @ drop 112 data", OF that l80]
    by (metis Uint64_take)
  have h0: "Uint32 ?x = Uint32 data" using u32 [of 0] by simp
  have mt: "take 32 (drop 4 ?x) = take 32 (drop 4 data)"
    by (rule splice_before [OF _ l80]) simp
  have mid: "take 16 (drop 64 ?x) = take 16 (drop 64 data)"
    by (rule splice_before [OF _ l80]) simp
  have dig: "take 32 (drop 80 ?x) = d" using l d by simp
  have p112: "drop 112 ?x = drop 112 data" by (rule splice_after [OF _ l112 d]) simp
  have p116: "drop 116 ?x = drop 116 data" by (rule splice_after [OF _ l112 d]) simp
  have p120: "drop 120 ?x = drop 120 data" by (rule splice_after [OF _ l112 d]) simp
  have s36: "Uint32 (drop 36 ?x) = Uint32 (drop 36 data)" by (rule u32) simp
  have s40: "Uint64 (drop 40 ?x) = Uint64 (drop 40 data)" by (rule u64) simp
  have s48: "Uint64 (drop 48 ?x) = Uint64 (drop 48 data)" by (rule u64) simp
  have s56: "Uint64 (drop 56 ?x) = Uint64 (drop 56 data)" by (rule u64) simp
  have "ParseMessage ?x = map_sum id (\<lambda>m. m\<lparr>PayloadDigest := d\<rparr>) (ParseMessage data)"
    apply (simp only: ParseMessage_def codec_len len Let_def h0 mt mid dig p112 p116 p120
        s36 s40 s48 s56)
    using l apply simp
    done
  then show ?thesis .
qed

subsection \<open>Round trip of a frame\<close>

text \<open>
  Claim C1, as amended. \<open>BuildMessage\<close> writes the payload length as \<open>uint32 (len (payload))\<close>,
  so the round trip holds for payloads of fewer than \<open>2 ^ 32\<close> bytes: parsing a built frame
  gives back the message type (at most 32 bytes, none of them null), the payload type (in the
  range of the 4-byte field), the sequence number and the payload, whatever the clock, the
  random message id and the digest function are.
\<close>

theorem message_round_trip:
  assumes "length payload < 2 ^ 32"
    and "length messageType \<le> 32" and "0 \<notin> set messageType"
    and "0 \<le> payloadType" and "payloadType < 2 ^ 32"
  shows "\<exists>m. ParseMessage (BuildMessage Sum256 now rnd messageType payloadType payload sequenceNumber) = Inr m
           \<and> MessageType m = messageType \<and> PayloadType m = payloadType
           \<and> SequenceNumber m = sequenceNumber \<and> Payload m = payload"
proof -
  have "trimNullBytes (copy_field 32 messageType) = messageType"
    using assms(2,3) by (simp only: trimNullBytes_copy_field takeWhile_take_id) simp
  moreover have "payloadType mod 2 ^ 32 = payloadType" using assms(4,5) by simp
  moreover have "take (length payload mod 2 ^ 32) payload = payload" using assms(1) by simp
  ultimately show ?thesis
    by (simp only: ParseMessage_BuildMessage) simp
qed

text \<open>An input frame of the terminal session: message type \<open>output_stream_data\<close>, payload \<open>"hi"\<close>.\<close>

theorem message_round_trip_witness:
  "\<exists>m. ParseMessage (BuildMessage (\<lambda>p. replicate 32 7) 1700000000000 [1, 2, 3]
           MessageTypeOutputStream PayloadTypeOutput [104, 105] 42) = Inr m
       \<and> MessageType m = MessageTypeOutputStream \<and> PayloadType m = PayloadTypeOutput
       \<and> SequenceNumber m = 42 \<and> Payload m = [104, 105]"
  using message_round_trip [of "[104, 105]" MessageTypeOutputStream PayloadTypeOutput
      "\<lambda>p. replicate 32 7" 1700000000000 "[1, 2, 3]" 42]
  by (simp add: MessageTypeOutputStream_def PayloadTypeOutput_def)

text \<open>
  Claim C1 as stated fails on a payload of \<open>2 ^ 32\<close> bytes: the length field wraps to 0 and the
  parser returns an empty payload.
\<close>

theorem message_round_trip_counterexample:
  "Payload (projr (ParseMessage (BuildMessage (take 32) 0 [] MessageTypeOutputStream
      PayloadTypeOutput (replicate 4294967296 0) 0))) \<noteq> replicate 4294967296 0"
proof -
  have "length (replicate 4294967296 (0::byte)) mod 2 ^ 32 = 0"
    by (simp only: length_replicate) simp
  then have "Payload (projr (ParseMessage (BuildMessage (take 32) 0 [] MessageTypeOutputStream
      PayloadTypeOutput (replicate 4294967296 0) 0))) = []"
    by (simp only: ParseMessage_BuildMessage sum.sel AgentMessage.select_convs take_0)
  moreover have "length (replicate 4294967296 (0::byte)) \<noteq> length ([]::byte list)"
    by (simp only: length_replicate) simp
  then have "replicate 4294967296 (0::byte) \<noteq> []" by fastforce
  ultimately show ?thesis by metis
qed

subsection \<open>The payload digest\<close>

text \<open>
  Claim C7. A built frame carries \<open>Sum256 payload\<close> at offset 80 (\<open>Sum256\<close> returns 32 bytes),
  and \<open>ParseMessage\<close> never looks at it: every input of at least 120 bytes parses, and replacing
  the 32 digest bytes of a frame by any others changes nothing in the result but the
  \<open>PayloadDigest\<close> field.
\<close>

theorem digest_built_not_checked:
  assumes "length (Sum256 payload) = 32" and "length data \<ge> 120" and "length d = 32"
  shows "take 32 (drop 80 (BuildMessage Sum256 now rnd messageType payloadType payload sequenceNumber))
           = Sum256 payload
    \<and> (\<exists>m. ParseMessage data = Inr m
          \<and> ParseMessage (take 80 data @ d @ drop 112 data) = Inr (m\<lparr>PayloadDigest := d\<rparr>))"
proof -
  have "take 32 (drop 80 (BuildMessage Sum256 now rnd messageType payloadType payload sequenceNumber))
      = copy_field 32 (Sum256 payload)"
    by (simp add: BuildMessage_def codec_len)
  moreover obtain m where m: "ParseMessage data = Inr m"
    using assms(2) by (simp add: ParseMessage_def HeaderLength_def Let_def)
  ultimately show ?thesis
    using ParseMessage_no_digest_check [OF assms(2,3)] assms(1)
    by (simp add: copy_field_exact)
qed

theorem digest_built_not_checked_witness:
  "length ((\<lambda>p. replicate 32 7) [1::byte]) = 32 \<and> length (replicate 120 (0::byte)) \<ge> 120
   \<and> length (replicate 32 (9::byte)) = 32
   \<and> take 32 (drop 80 (BuildMessage (\<lambda>p. replicate 32 7) 0 [] MessageTypeOutputStream 1 [1] 5))
        = replicate 32 7
   \<and> (\<exists>m. ParseMessage (replicate 120 0) = Inr m
          \<and> ParseMessage (take 80 (replicate 120 0) @ replicate 32 9 @ drop 112 (replicate 120 0))
              = Inr (m\<lparr>PayloadDigest := replicate 32 9\<rparr>))"
  using digest_built_not_checked [of "\<lambda>p. replicate 32 7" "[1]" "replicate 120 0" "replicate 32 9"
      0 "[]" MessageTypeOutputStream 1 5]
  by simp

subsection \<open>The message type field\<close>

text \<open>
  Claim C10, as amended. The message type is stored in 32 bytes, cut at 32 and padded with
  nulls; the parser returns the bytes before the first null of the field. The message type
  comes back unchanged exactly when it has at most 32 bytes and no null byte.
\<close>

theorem message_type_survival:
  "take 32 (drop 4 (BuildMessage Sum256 now rnd messageType payloadType payload sequenceNumber))
      = take 32 messageType @ replicate (32 - length messageType) 0
   \<and> (\<exists>m. ParseMessage (BuildMessage Sum256 now rnd messageType payloadType payload sequenceNumber) = Inr m
          \<and> MessageType m = takeWhile (\<lambda>c. c \<noteq> 0) (take 32 messageType)
          \<and> (MessageType m = messageType \<longleftrightarrow> length messageType \<le> 32 \<and> 0 \<notin> set messageType))"
proof -
  have "take 32 (drop 4 (BuildMessage Sum256 now rnd messageType payloadType payload sequenceNumber))
      = copy_field 32 messageType"
    by (simp add: BuildMessage_def codec_len)
  then have "take 32 (drop 4 (BuildMessage Sum256 now rnd messageType payloadType payload sequenceNumber))
      = take 32 messageType @ replicate (32 - length messageType) 0"
    by (simp only: copy_field_def)
  moreover have "\<exists>m. ParseMessage (BuildMessage Sum256 now rnd messageType payloadType payload sequenceNumber) = Inr m
          \<and> MessageType m = takeWhile (\<lambda>c. c \<noteq> 0) (take 32 messageType)
          \<and> (MessageType m = messageType \<longleftrightarrow> length messageType \<le> 32 \<and> 0 \<notin> set messageType)"
    by (simp add: ParseMessage_BuildMessage trimNullBytes_copy_field takeWhile_take_id)
  ultimately show ?thesis by (rule conjI)
qed

text \<open>
  Claim C10 as stated fails on a message type of exactly 32 bytes: it fills the field, is not
  truncated, and comes back unchanged.
\<close>

theorem message_type_survival_counterexample:
  "MessageType (projr (ParseMessage (BuildMessage (take 32) 0 [] (replicate 32 97)
      PayloadTypeOutput [] 0))) = replicate 32 97
   \<and> \<not> length (replicate 32 (97::byte)) < 32"
proof -
  have "takeWhile (\<lambda>c. c \<noteq> 0) (take 32 (replicate 32 (97::byte))) = replicate 32 97"
    by (simp only: takeWhile_take_id) simp
  then show ?thesis
    by (simp add: ParseMessage_BuildMessage trimNullBytes_copy_field)
qed

section \<open>Properties: bandwidth limit strings\<close>

subsection \<open>Facts about the parser\<close>

lemmas pf_defs = ParseFloat_decimal_def special_def ToUpper_def ToUpper_char_def parse_unsigned_def
  parse_mantissa_def parse_exponent_def is_digit_def is_exp_char_def digits_value_def range_limit_def

lemmas pbl_defs = ParseBandwidthLimit_def TrimSpace_def is_space_def HasSuffix_def TrimSuffix_def
  trunc_def

lemma numchar_upper: "is_numchar c \<Longrightarrow> ToUpper_char c = c"
  by (auto simp: is_numchar_def is_digit_def ToUpper_char_def)

lemma numchar_not_space: "is_numchar c \<Longrightarrow> \<not> is_space c"
  by (auto simp: is_numchar_def is_digit_def is_space_def)

lemma numchar_not_letter:
  "is_numchar c \<Longrightarrow> c \<noteq> CHR ''G'' \<and> c \<noteq> CHR ''M'' \<and> c \<noteq> CHR ''K'' \<and> c \<noteq> CHR ''B''"
  by (auto simp: is_numchar_def is_digit_def)

lemma ToUpper_numeric: "list_all is_numchar num \<Longrightarrow> ToUpper (num @ suf) = num @ ToUpper suf"
  by (induction num) (simp_all add: ToUpper_def numchar_upper)

lemma TrimSpace_keeps:
  assumes "\<not> is_space a" and "\<not> is_space b"
  shows "TrimSpace (a # mid @ [b]) = a # mid @ [b]"
  using assms by (simp add: TrimSpace_def)

lemma TrimSpace_single: "\<not> is_space a \<Longrightarrow> TrimSpace [a] = [a]"
  by (simp add: TrimSpace_def)

lemma ParseBandwidthLimit_suffix:
  assumes ne: "num \<noteq> []" and nm: "list_all is_numchar num"
    and u: "(ToUpper suf, m) \<in> set units"
  shows "ParseBandwidthLimit pf impl (num @ suf) =
           (case pf num of
              Inl err \<Rightarrow> Inl (InvalidLimit (num @ ToUpper suf) err)
            | Inr v \<Rightarrow> if le_zero v then Inl (NotPositive (num @ ToUpper suf))
                       else Inr (int64_of_float impl (fmul v m)))"
proof -
  obtain pre c where num: "num = pre @ [c]" using ne by (cases num rule: rev_cases) auto
  have c: "is_numchar c" using nm num by simp
  obtain a rest where num2: "num = a # rest" using ne by (cases num) auto
  have a: "is_numchar a" using nm num2 by simp
  have up: "ToUpper (num @ suf) = num @ ToUpper suf" by (rule ToUpper_numeric [OF nm])
  have nosp: "\<not> is_space c" "\<not> is_space a" using c a by (simp_all add: numchar_not_space)
  have tr: "TrimSpace (num @ U) = num @ U" if "U = [] \<or> \<not> is_space (last U)" for U
  proof (cases "num @ U" rule: rev_cases)
    case Nil
    then show ?thesis using ne by simp
  next
    case (snoc V b)
    have b: "\<not> is_space b"
      using that snoc nosp(1) num by (cases U rule: rev_cases) auto
    show ?thesis
    proof (cases V)
      case Nil
      then show ?thesis using snoc b by (simp add: TrimSpace_single)
    next
      case (Cons a' V')
      then have "a' = a" using snoc num2 by simp
      then show ?thesis using snoc Cons b nosp(2) TrimSpace_keeps [of a b V'] by simp
    qed
  qed
  have nl: "c \<noteq> CHR ''G''" "c \<noteq> CHR ''M''" "c \<noteq> CHR ''K''" "c \<noteq> CHR ''B''"
    using numchar_not_letter [OF c] by simp_all
  have sp: "\<not> is_space (CHR ''B'')" "\<not> is_space (CHR ''K'')" "\<not> is_space (CHR ''M'')" "\<not> is_space (CHR ''G'')"
    by (simp_all add: is_space_def)
  from u consider "ToUpper suf = []" "m = 1" | "ToUpper suf = ''B''" "m = 1"
    | "ToUpper suf = ''K''" "m = 1024" | "ToUpper suf = ''KB''" "m = 1024"
    | "ToUpper suf = ''M''" "m = 1024 * 1024" | "ToUpper suf = ''MB''" "m = 1024 * 1024"
    | "ToUpper suf = ''G''" "m = 1024 * 1024 * 1024" | "ToUpper suf = ''GB''" "m = 1024 * 1024 * 1024"
    by (auto simp: units_def)
  then show ?thesis
  proof cases
    case 1
    have s_eq: "TrimSpace (ToUpper (num @ suf)) = num @ ToUpper suf"
      unfolding up using tr [of "ToUpper suf"] sp 1(1) by simp
    show ?thesis
      unfolding ParseBandwidthLimit_def s_eq
      using ne nl 1 by (simp add: HasSuffix_def TrimSuffix_def num Let_def split: sum.splits)
  next
    case 2
    have s_eq: "TrimSpace (ToUpper (num @ suf)) = num @ ToUpper suf"
      unfolding up using tr [of "ToUpper suf"] sp 2(1) by simp
    show ?thesis
      unfolding ParseBandwidthLimit_def s_eq
      using ne nl 2 by (simp add: HasSuffix_def TrimSuffix_def num Let_def split: sum.splits)
  next
    case 3
    have s_eq: "TrimSpace (ToUpper (num @ suf)) = num @ ToUpper suf"
      unfolding up using tr [of "ToUpper suf"] sp 3(1) by simp
    show ?thesis
      unfolding ParseBandwidthLimit_def s_eq
      using ne nl 3 by (simp add: HasSuffix_def TrimSuffix_def num Let_def split: sum.splits)
  next
    case 4
    have s_eq: "TrimSpace (ToUpper (num @ suf)) = num @ ToUpper suf"
      unfolding up using tr [of "ToUpper suf"] sp 4(1) by simp
    show ?thesis
      unfolding ParseBandwidthLimit_def s_eq
      using ne nl 4 by (simp add: HasSuffix_def TrimSuffix_def num Let_def split: sum.splits)
  next
    case 5
    have s_eq: "TrimSpace (ToUpper (num @ suf)) = num @ ToUpper suf"
      unfolding up using tr [of "ToUpper suf"] sp 5(1) by simp
    show ?thesis
      unfolding ParseBandwidthLimit_def s_eq
      using ne nl 5 by (simp add: HasSuffix_def TrimSuffix_def num Let_def split: sum.splits)
  next
    case 6
    have s_eq: "TrimSpace (ToUpper (num @ suf)) = num @ ToUpper suf"
      unfolding up using tr [of "ToUpper suf"] sp 6(1) by simp
    show ?thesis
      unfolding ParseBandwidthLimit_def s_eq
      using ne nl 6 by (simp add: HasSuffix_def TrimSuffix_def num Let_def split: sum.splits)
  next
    case 7
    have s_eq: "TrimSpace (ToUpper (num @ suf)) = num @ ToUpper suf"
      unfolding up using tr [of "ToUpper suf"] sp 7(1) by simp
    show ?thesis
      unfolding ParseBandwidthLimit_def s_eq
      using ne nl 7 by (simp add: HasSuffix_def TrimSuffix_def num Let_def split: sum.splits)
  next
    case 8
    have s_eq: "TrimSpace (ToUpper (num @ suf)) = num @ ToUpper suf"
      unfolding up using tr [of "ToUpper suf"] sp 8(1) by simp
    show ?thesis
      unfolding ParseBandwidthLimit_def s_eq
      using ne nl 8 by (simp add: HasSuffix_def TrimSuffix_def num Let_def split: sum.splits)
  qed
qed

text \<open>
  Claim C4. The ten examples of the specification, with the decimal literal parser; and the
  grammar in general, for any \<open>ParseFloat\<close>: a magnitude followed by one of the suffixes (none,
  \<open>B\<close>, \<open>K\<close>, \<open>KB\<close>, \<open>M\<close>, \<open>MB\<close>, \<open>G\<close>, \<open>GB\<close>, in either case) is an error when the magnitude
  does not parse or is not positive, and otherwise the magnitude times the unit, truncated.
\<close>

theorem ParseBandwidthLimit_grammar:
  "ParseBandwidthLimit ParseFloat_decimal impl [] = Inr 0
   \<and> ParseBandwidthLimit ParseFloat_decimal impl ''1024'' = Inr 1024
   \<and> ParseBandwidthLimit ParseFloat_decimal impl ''1K'' = Inr 1024
   \<and> ParseBandwidthLimit ParseFloat_decimal impl ''500K'' = Inr 512000
   \<and> ParseBandwidthLimit ParseFloat_decimal impl ''1M'' = Inr 1048576
   \<and> ParseBandwidthLimit ParseFloat_decimal impl ''1.5M'' = Inr 1572864
   \<and> ParseBandwidthLimit ParseFloat_decimal impl ''1G'' = Inr 1073741824
   \<and> ParseBandwidthLimit ParseFloat_decimal impl ''abc'' = Inl (InvalidLimit ''ABC'' ErrSyntax)
   \<and> ParseBandwidthLimit ParseFloat_decimal impl ''-100K'' = Inl (NotPositive ''-100K'')
   \<and> ParseBandwidthLimit ParseFloat_decimal impl ''0K'' = Inl (NotPositive ''0K'')
   \<and> (\<forall>ParseFloat num suf m.
         num \<noteq> [] \<and> list_all is_numchar num \<and> (ToUpper suf, m) \<in> set units \<longrightarrow>
         ParseBandwidthLimit ParseFloat impl (num @ suf) =
           (case ParseFloat num of
              Inl err \<Rightarrow> Inl (InvalidLimit (num @ ToUpper suf) err)
            | Inr v \<Rightarrow> if le_zero v then Inl (NotPositive (num @ ToUpper suf))
                       else Inr (int64_of_float impl (fmul v m))))"
proof -
  have e1: "ParseBandwidthLimit ParseFloat_decimal impl [] = Inr 0"
    by (simp add: ParseBandwidthLimit_def)
  have e2: "ParseBandwidthLimit ParseFloat_decimal impl ''1024'' = Inr 1024"
    by (simp add: pbl_defs pf_defs)
  have e3: "ParseBandwidthLimit ParseFloat_decimal impl ''1K'' = Inr 1024"
    by (simp add: pbl_defs pf_defs)
  have e4: "ParseBandwidthLimit ParseFloat_decimal impl ''500K'' = Inr 512000"
    by (simp add: pbl_defs pf_defs)
  have e5: "ParseBandwidthLimit ParseFloat_decimal impl ''1M'' = Inr 1048576"
    by (simp add: pbl_defs pf_defs)
  have e6: "ParseBandwidthLimit ParseFloat_decimal impl ''1.5M'' = Inr 1572864"
    by (simp add: pbl_defs pf_defs)
  have e7: "ParseBandwidthLimit ParseFloat_decimal impl ''1G'' = Inr 1073741824"
    by (simp add: pbl_defs pf_defs)
  have e8: "ParseBandwidthLimit ParseFloat_decimal impl ''abc'' = Inl (InvalidLimit ''ABC'' ErrSyntax)"
    by code_simp
  have e9: "ParseBandwidthLimit ParseFloat_decimal impl ''-100K'' = Inl (NotPositive ''-100K'')"
    by (simp add: pbl_defs pf_defs)
  have e10: "ParseBandwidthLimit ParseFloat_decimal impl ''0K'' = Inl (NotPositive ''0K'')"
    by (simp add: pbl_defs pf_defs)
  show ?thesis
    using e1 e2 e3 e4 e5 e6 e7 e8 e9 e10 ParseBandwidthLimit_suffix by blast
qed

text \<open>The general part at \<open>1.5mb\<close>, \<open>-2G\<close> and \<open>1.2.3k\<close>.\<close>

theorem ParseBandwidthLimit_grammar_witness:
  "list_all is_numchar ''1.5'' \<and> (ToUpper ''mb'', 1024 * 1024) \<in> set units
   \<and> ParseBandwidthLimit ParseFloat_decimal (\<lambda>f. 0) ''1.5mb'' = Inr 1572864
   \<and> ParseBandwidthLimit ParseFloat_decimal (\<lambda>f. 0) ''-2G'' = Inl (NotPositive ''-2G'')
   \<and> ParseBandwidthLimit ParseFloat_decimal (\<lambda>f. 0) ''1.2.3k'' = Inl (InvalidLimit ''1.2.3K'' ErrSyntax)"
proof -
  have g: "num \<noteq> [] \<and> list_all is_numchar num \<and> (ToUpper suf, m) \<in> set units \<longrightarrow>
         ParseBandwidthLimit ParseFloat_decimal (\<lambda>f. 0) (num @ suf) =
           (case ParseFloat_decimal num of
              Inl err \<Rightarrow> Inl (InvalidLimit (num @ ToUpper suf) err)
            | Inr v \<Rightarrow> if le_zero v then Inl (NotPositive (num @ ToUpper suf))
                       else Inr (int64_of_float (\<lambda>f. 0) (fmul v m)))" for num suf m
    using ParseBandwidthLimit_grammar [of "\<lambda>f. 0"] by blast
  have n1: "list_all is_numchar ''1.5''" and n2: "list_all is_numchar ''-2''"
    and n3: "list_all is_numchar ''1.2.3''"
    by (simp_all add: is_numchar_def is_digit_def)
  have u1: "(ToUpper ''mb'', 1024 * 1024) \<in> set units" by code_simp
  have u2: "(ToUpper ''G'', 1024 * 1024 * 1024) \<in> set units" by code_simp
  have u3: "(ToUpper ''k'', 1024) \<in> set units" by code_simp
  have t1: "ToUpper ''mb'' = ''MB''" and t2: "ToUpper ''G'' = ''G''" and t3: "ToUpper ''k'' = ''K''"
    by code_simp+
  have p1: "ParseFloat_decimal ''1.5'' = Inr (Finite (3 / 2))" by (simp add: pf_defs)
  have p2: "ParseFloat_decimal ''-2'' = Inr (Finite (- 2))" by (simp add: pf_defs)
  have p3: "ParseFloat_decimal ''1.2.3'' = Inl ErrSyntax" by (simp add: pf_defs)
  have r1: "ParseBandwidthLimit ParseFloat_decimal (\<lambda>f. 0) ''1.5mb'' = Inr 1572864"
    using g [of "''1.5''" "''mb''" "1024 * 1024"] n1 u1 by (simp add: p1 trunc_def range_limit_def)
  have r2: "ParseBandwidthLimit ParseFloat_decimal (\<lambda>f. 0) ''-2G'' = Inl (NotPositive ''-2G'')"
    using g [of "''-2''" "''G''" "1024 * 1024 * 1024"] n2 u2 by (simp add: p2 t2)
  have r3: "ParseBandwidthLimit ParseFloat_decimal (\<lambda>f. 0) ''1.2.3k'' = Inl (InvalidLimit ''1.2.3K'' ErrSyntax)"
    using g [of "''1.2.3''" "''k''" "1024"] n3 u3 by (simp add: p3 t3)
  show ?thesis using n1 u1 r1 r2 r3 by blast
qed

section \<open>Properties: progress reporter\<close>

subsection \<open>Width of the bar\<close>

lemma build_bar_length: "build_bar w p = Bar b \<Longrightarrow> int (length b) = w"
  by (auto simp: build_bar_def Repeat_def Let_def split: if_splits)

lemma ProgressWriter_width:
  "ProgressWriter_printProgress q r sz tot cur = Bar b \<Longrightarrow>
     int (length b) = (case sz of Inr (w, h) \<Rightarrow> if w > 80 then 40 else 30 | Inl e \<Rightarrow> 30)"
  by (auto simp: ProgressWriter_printProgress_def Let_def dest!: build_bar_length
      split: if_splits sum.splits prod.splits)

lemma ProgressReader_width:
  "ProgressReader_printProgress q r sz tot cur = Bar b \<Longrightarrow> int (length b) = 30"
  by (auto simp: ProgressReader_printProgress_def Let_def dest!: build_bar_length split: if_splits)

text \<open>
  Claim C9 holds for the writer and fails for the reader: on a terminal 120 columns wide, half
  way through 100 bytes, the writer draws 40 cells and the reader 30.
\<close>

theorem progress_reader_ignores_terminal_width:
  "ProgressWriter_printProgress False False (Inr (120, 40)) 100 50
      = Bar (replicate 20 Full @ replicate 20 Light)
   \<and> ProgressReader_printProgress False False (Inr (120, 40)) 100 50
      = Bar (replicate 15 Full @ replicate 15 Light)"
  by (simp add: ProgressWriter_printProgress_def ProgressReader_printProgress_def build_bar_def
      percent_of_def Repeat_def trunc_def)

section \<open>Properties: copy loop and rate-limited streams\<close>

subsection \<open>Cancellation of the copy loop\<close>

text \<open>
  A context found done at the \<open>k\<close>-th check after \<open>i\<close> ends the loop with its error, unless the
  loop has ended within the \<open>k\<close> iterations before; this holds for every reader and writer.
\<close>

lemma copy_loop_returns:
  assumes "\<forall>j<k. ctx (i + j) = None" and "ctx (i + k) = Some e" and "k < fuel"
  shows "(case copy_loop k (\<lambda>j. None) wr rd i dst src w of
            Some r \<Rightarrow> copy_loop fuel ctx wr rd i dst src w = Some r
          | None \<Rightarrow> \<exists>n dst' src'. copy_loop fuel ctx wr rd i dst src w
                                     = Some ((n, Some (CtxErr e)), dst', src'))"
  using assms
proof (induction k arbitrary: i fuel dst src w)
  case 0
  then obtain f where "fuel = Suc f" by (cases fuel) auto
  then show ?case using 0 by simp
next
  case (Suc k)
  obtain f where f: "fuel = Suc f" and kf: "k < f" using Suc.prems(3) by (cases fuel) auto
  have c0: "ctx i = None" using Suc.prems(1) by (metis add.right_neutral zero_less_Suc)
  have a1: "\<forall>j<k. ctx (Suc i + j) = None" using Suc.prems(1) by (metis Suc_less_eq add_Suc_shift)
  have a2: "ctx (Suc i + k) = Some e" using Suc.prems(2) by simp
  note IH = Suc.IH [OF a1 a2 kf]
  obtain buf rerr src1 where rd: "rd src 32768 = (buf, rerr, src1)" by (cases "rd src 32768")
  obtain nw werr dst1 where wr: "wr dst buf = (nw, werr, dst1)" by (cases "wr dst buf")
  show ?case
    unfolding f using IH [of dst1 src1 "w + nw"] IH [of dst src1 w]
    by (auto simp: c0 rd wr split: option.splits)
qed

text \<open>
  A sink appends the bytes it counts. So the count returned by the loop is the number of bytes
  appended to the sink, for every reader and every outcome.
\<close>

lemma sink_write_appends:
  "sink_write s p = (nw, werr, s')
     \<Longrightarrow> written_data s' = written_data s @ take nw p \<and> nw \<le> length p"
  by (auto simp: sink_write_def split: option.splits if_splits)

lemma copy_loop_sink_count:
  "copy_loop fuel ctx sink_write rd i s src w = Some ((n, err), s', src')
     \<Longrightarrow> \<exists>bs. written_data s' = written_data s @ bs \<and> n = w + length bs"
proof (induction fuel arbitrary: i s src w)
  case 0
  then show ?case by simp
next
  case (Suc fuel)
  obtain buf rerr src1 where rd: "rd src 32768 = (buf, rerr, src1)" by (cases "rd src 32768")
  obtain nw werr s1 where wr: "sink_write s buf = (nw, werr, s1)" by (cases "sink_write s buf")
  note ap = sink_write_appends [OF wr]
  have step: "\<exists>bs. written_data s' = written_data s @ bs \<and> n = w + length bs"
    if "copy_loop fuel ctx sink_write rd (Suc i) s1 src1 (w + nw) = Some ((n, err), s', src')"
  proof -
    from Suc.IH [OF that] obtain bs where "written_data s' = written_data s1 @ bs" "n = w + nw + length bs"
      by auto
    then have "written_data s' = written_data s @ (take nw buf @ bs) \<and> n = w + length (take nw buf @ bs)"
      using ap by simp
    then show ?thesis by blast
  qed
  have here: "\<exists>bs. written_data s1 = written_data s @ bs \<and> w + nw = w + length bs"
    using ap by (intro exI [of _ "take nw buf"]) simp
  show ?case
    using Suc.prems Suc.IH [of "Suc i" s src1 w] step here
    by (auto simp: rd wr Let_def split: option.splits if_splits)
qed

text \<open>
  The loop on bytes held in memory, with a sink that takes everything: the result in closed form.
\<close>

lemma copy_loop_mem:
  assumes "\<forall>j<k. ctx (i + j) = None" and "ctx (i + k) = Some e" and "k < fuel"
  shows "copy_loop fuel ctx sink_write mem_read i \<lparr>written_data = d, room = None\<rparr> src w
           = (if 32768 * k < length src + 32768
              then Some ((w + min (32768 * k) (length src), Some (CtxErr e)),
                         \<lparr>written_data = d @ take (32768 * k) src, room = None\<rparr>,
                         drop (32768 * k) src)
              else Some ((w + length src, None), \<lparr>written_data = d @ src, room = None\<rparr>, []))"
  using assms
proof (induction k arbitrary: i fuel d src w)
  case 0
  then obtain f where "fuel = Suc f" by (cases fuel) auto
  then show ?case using 0 by simp
next
  case (Suc k)
  obtain f where f: "fuel = Suc f" and kf: "k < f" using Suc.prems(3) by (cases fuel) auto
  have c0: "ctx i = None" using Suc.prems(1) by (metis add.right_neutral zero_less_Suc)
  have a1: "\<forall>j<k. ctx (Suc i + j) = None" using Suc.prems(1) by (metis Suc_less_eq add_Suc_shift)
  have a2: "ctx (Suc i + k) = Some e" using Suc.prems(2) by simp
  note IH = Suc.IH [OF a1 a2 kf]
  show ?case
  proof (cases "src = []")
    case True
    then show ?thesis unfolding f by (simp add: c0 mem_read_def)
  next
    case False
    let ?m = "min 32768 (length src)"
    have rd: "mem_read src 32768 = (take 32768 src, None, drop 32768 src)"
      using False by (simp add: mem_read_def)
    have wr: "sink_write \<lparr>written_data = d, room = None\<rparr> (take 32768 src)
        = (?m, None, \<lparr>written_data = d @ take 32768 src, room = None\<rparr>)"
      by (simp add: sink_write_def min.commute)
    have pos: "0 < length src" using False by simp
    have step: "copy_loop (Suc f) ctx sink_write mem_read i \<lparr>written_data = d, room = None\<rparr> src w
        = copy_loop f ctx sink_write mem_read (Suc i)
            \<lparr>written_data = d @ take 32768 src, room = None\<rparr> (drop 32768 src) (w + ?m)"
      using pos by (simp add: c0 rd wr min.commute)
    have cond: "(32768 * k < length (drop 32768 src) + 32768) = (32768 * Suc k < length src + 32768)"
      using pos by (cases k) auto
    have cnt: "w + ?m + min (32768 * k) (length (drop 32768 src)) = w + min (32768 * Suc k) (length src)"
      if "32768 * Suc k < length src + 32768"
      using that pos by (cases k) auto
    have tk: "(d @ take 32768 src) @ take (32768 * k) (drop 32768 src) = d @ take (32768 * Suc k) src"
      by (simp add: take_add)
    have dr: "drop (32768 * k) (drop 32768 src) = drop (32768 * Suc k) src"
      by (simp add: add.commute)
    have fin: "w + ?m + length (drop 32768 src) = w + length src"
      by auto
    show ?thesis
      unfolding f step IH cond
      using cnt tk dr fin by (simp del: mult_Suc_right)
  qed
qed


text \<open>
  Claim C6, as amended. Let the context be live at the checks before the \<open>k\<close>-th and done there
  (checks are counted from 0). For every reader and every writer: at the check that finds the
  context done, the function returns the context's error and the count as it stands, without
  calling the reader and with the destination as the writes before left it; and the call
  returns that error unless the copy has ended by itself within the \<open>k\<close> iterations before.
  With a byte sink as destination, the count returned is the number of bytes appended to the
  sink, whatever the reader delivers and whether or not the sink fails. For a source of
  \<open>length bytes\<close> bytes read in chunks of 32 KB into a sink that takes every byte, the count is
  \<open>min (32768 * k) (length bytes)\<close> as long as the check comes before the read that reports the
  end of the source: less than the size when bytes are left (\<open>32768 * k < length bytes\<close>), the
  size itself, still with the context's error, when the last chunk has just been copied. A
  context that is done later than that is not looked at any more: the copy returns the size
  and no error.
\<close>

theorem CopyWithContext_cancel_mid_copy:
  assumes "\<forall>j<k. ctx j = None" and "ctx k = Some e" and "k < fuel"
  shows "copy_loop (Suc f) ctx wr rd k dk sk wk = Some ((wk, Some (CtxErr e)), dk, sk)
       \<and> (case copy_loop k (\<lambda>j. None) wr rd 0 dst src 0 of
             Some r \<Rightarrow> CopyWithContext fuel ctx wr rd dst src = Some r
           | None \<Rightarrow> \<exists>n dst' src'. CopyWithContext fuel ctx wr rd dst src
                                      = Some ((n, Some (CtxErr e)), dst', src'))
       \<and> (\<exists>n err s' src' bs.
             CopyWithContext fuel ctx sink_write rd s src = Some ((n, err), s', src')
             \<and> written_data s' = written_data s @ bs \<and> length bs = n)
       \<and> CopyWithContext fuel ctx sink_write mem_read \<lparr>written_data = d, room = None\<rparr> bytes
           = (if 32768 * k < length bytes + 32768
              then Some ((min (32768 * k) (length bytes), Some (CtxErr e)),
                         \<lparr>written_data = d @ take (32768 * k) bytes, room = None\<rparr>,
                         drop (32768 * k) bytes)
              else Some ((length bytes, None), \<lparr>written_data = d @ bytes, room = None\<rparr>, []))"
proof -
  have live: "\<forall>j<k. ctx (0 + j) = None" and dn: "ctx (0 + k) = Some e"
    using assms(1,2) by simp_all
  have p1: "copy_loop (Suc f) ctx wr rd k dk sk wk = Some ((wk, Some (CtxErr e)), dk, sk)"
    using assms(2) by simp
  have p2: "case copy_loop k (\<lambda>j. None) wr rd 0 dst src 0 of
             Some r \<Rightarrow> CopyWithContext fuel ctx wr rd dst src = Some r
           | None \<Rightarrow> \<exists>n dst' src'. CopyWithContext fuel ctx wr rd dst src
                                      = Some ((n, Some (CtxErr e)), dst', src')"
    for wr :: "'c writer" and dst
    unfolding CopyWithContext_def by (rule copy_loop_returns [OF live dn assms(3)])
  have "\<exists>res. CopyWithContext fuel ctx sink_write rd s src = Some res"
    using p2 [of sink_write s] by (auto split: option.splits)
  then obtain n err s' src' where
    r: "CopyWithContext fuel ctx sink_write rd s src = Some ((n, err), s', src')"
    by (metis prod.collapse)
  from copy_loop_sink_count [OF r [unfolded CopyWithContext_def]]
  obtain bs where "written_data s' = written_data s @ bs" "n = length bs" by auto
  with r have p3: "\<exists>n err s' src' bs.
             CopyWithContext fuel ctx sink_write rd s src = Some ((n, err), s', src')
             \<and> written_data s' = written_data s @ bs \<and> length bs = n"
    by blast
  have p4: "CopyWithContext fuel ctx sink_write mem_read \<lparr>written_data = d, room = None\<rparr> bytes
           = (if 32768 * k < length bytes + 32768
              then Some ((min (32768 * k) (length bytes), Some (CtxErr e)),
                         \<lparr>written_data = d @ take (32768 * k) bytes, room = None\<rparr>,
                         drop (32768 * k) bytes)
              else Some ((length bytes, None), \<lparr>written_data = d @ bytes, room = None\<rparr>, []))"
    using copy_loop_mem [OF live dn assms(3), of d bytes 0] by (simp add: CopyWithContext_def)
  show ?thesis
    using p1 p2 [of wr dst] p3 p4 by (intro conjI)
qed

text \<open>
  A source of 40000 bytes, two chunks, with the context found done at the check after the
  first chunk, at the check after the second, and one check later.
\<close>

theorem CopyWithContext_cancel_mid_copy_witness:
  "CopyWithContext 5 (done_from 1 Canceled) sink_write mem_read
       \<lparr>written_data = [], room = None\<rparr> (replicate 40000 7)
     = Some ((32768, Some (CtxErr Canceled)),
             \<lparr>written_data = replicate 32768 7, room = None\<rparr>, replicate 7232 7)
   \<and> CopyWithContext 5 (done_from 2 Canceled) sink_write mem_read
       \<lparr>written_data = [], room = None\<rparr> (replicate 40000 7)
     = Some ((40000, Some (CtxErr Canceled)),
             \<lparr>written_data = replicate 40000 7, room = None\<rparr>, [])
   \<and> CopyWithContext 5 (done_from 3 Canceled) sink_write mem_read
       \<lparr>written_data = [], room = None\<rparr> (replicate 40000 7)
     = Some ((40000, None), \<lparr>written_data = replicate 40000 7, room = None\<rparr>, [])"
proof -
  have h: "\<forall>j<n. done_from n Canceled j = None" "done_from n Canceled n = Some Canceled" for n
    by (simp_all add: done_from_def)
  note t = CopyWithContext_cancel_mid_copy [OF h, THEN conjunct2, THEN conjunct2, THEN conjunct2]
  show ?thesis
    using t [of 1 5 "[]" "replicate 40000 7"] t [of 2 5 "[]" "replicate 40000 7"]
      t [of 3 5 "[]" "replicate 40000 7"]
    by simp
qed

text \<open>
  Claim C6 as stated fails on a source of 40000 bytes, more than one chunk, whose context is
  cancelled while the second chunk is copied: the checks before the first and the second read
  find the context live, the check after the second write finds it done, and the function
  returns the cancellation error with 40000 bytes written, the size of the source.
\<close>

theorem CopyWithContext_cancel_mid_copy_counterexample:
  "32 * 1024 < length (replicate 40000 (7::byte))
   \<and> done_from 2 Canceled 0 = None \<and> done_from 2 Canceled 1 = None
   \<and> CopyWithContext 5 (done_from 2 Canceled) sink_write mem_read
       \<lparr>written_data = [], room = None\<rparr> (replicate 40000 7)
     = Some ((40000, Some (CtxErr Canceled)),
             \<lparr>written_data = replicate 40000 7, room = None\<rparr>, [])
   \<and> \<not> 40000 < length (replicate 40000 (7::byte))"
proof -
  have "\<forall>j<2. done_from 2 Canceled (0 + j) = None" "done_from 2 Canceled (0 + 2) = Some Canceled"
    by (simp_all add: done_from_def)
  from copy_loop_mem [OF this, of 5 "[]" "replicate 40000 7" 0]
  have "CopyWithContext 5 (done_from 2 Canceled) sink_write mem_read
       \<lparr>written_data = [], room = None\<rparr> (replicate 40000 7)
     = Some ((40000, Some (CtxErr Canceled)),
             \<lparr>written_data = replicate 40000 7, room = None\<rparr>, [])"
    by (simp add: CopyWithContext_def)
  moreover have "done_from 2 Canceled 0 = None \<and> done_from 2 Canceled 1 = None"
    by (simp add: done_from_def)
  ultimately show ?thesis by simp
qed

subsection \<open>The token bucket at low rates\<close>

text \<open>
  When a pass of the loop with its 10 ms of sleep earns less than one byte, the truncated
  refill is 0 every time: an empty bucket stays empty.
\<close>

lemma refill_starved:
  assumes "\<forall>k. (clock k + sleep_ns) * bytesPerSec t < 1000000000" and "bucket t = 0"
  shows "refill clock t = 0"
proof -
  have "(clock (tick t) + (if slept t then sleep_ns else 0)) * bytesPerSec t
          \<le> (clock (tick t) + sleep_ns) * bytesPerSec t"
    by (simp add: mult_le_mono1)
  also have "\<dots> < 1000000000" using assms(1) by blast
  finally show ?thesis using assms(2) by (simp add: refill_def Let_def)
qed

lemma write_loop_starved:
  assumes "\<forall>k. (clock k + sleep_ns) * bytesPerSec t < 1000000000" and "bucket t = 0"
    and "written < length p"
  shows "write_loop fuel clock wr t p written = None"
  using assms
proof (induction fuel arbitrary: t)
  case 0
  then show ?case by simp
next
  case (Suc fuel)
  have r: "refill clock t = 0" by (rule refill_starved [OF Suc.prems(1,2)])
  let ?t = "t\<lparr>bucket := 0, slept := True, tick := Suc (tick t)\<rparr>"
  have "write_loop (Suc fuel) clock wr t p written = write_loop fuel clock wr ?t p written"
    using Suc.prems(3) by (simp add: r)
  also have "\<dots> = None"
    by (rule Suc.IH) (use Suc.prems in simp_all)
  finally show ?case .
qed

lemma copy_loop_starved:
  assumes "\<forall>k. (clock k + sleep_ns) * bytesPerSec t < 1000000000" and "bucket t = 0"
  shows "copy_loop fuel (\<lambda>k. None) wr (ThrottledReader_Read clock rd) i dst t w = None"
  using assms
proof (induction fuel arbitrary: t i)
  case 0
  then show ?case by simp
next
  case (Suc fuel)
  have r: "refill clock t = 0" by (rule refill_starved [OF Suc.prems(1,2)])
  let ?t = "t\<lparr>bucket := 0, slept := True, tick := Suc (tick t)\<rparr>"
  have rd: "ThrottledReader_Read clock rd t 32768 = ([], None, ?t)"
    by (simp add: ThrottledReader_Read_def r)
  have "copy_loop (Suc fuel) (\<lambda>k. None) wr (ThrottledReader_Read clock rd) i dst t w
      = copy_loop fuel (\<lambda>k. None) wr (ThrottledReader_Read clock rd) (Suc i) dst ?t w"
    by (simp add: rd)
  also have "\<dots> = None"
    by (rule Suc.IH) (use Suc.prems in simp_all)
  finally show ?case .
qed

text \<open>
  What \<open>Write\<close> returns is right at every rate: the count it returns is the number of bytes the
  sink took, in order; without error the count is the length of the buffer, and an error is
  the sink's.
\<close>

lemma write_loop_safe:
  assumes "write_loop fuel clock sink_write t p w = Some (n, err, t')" and "w \<le> length p"
  shows "w \<le> n \<and> n \<le> length p
         \<and> written_data (inner t') = written_data (inner t) @ take (n - w) (drop w p)
         \<and> (err = None \<longrightarrow> n = length p) \<and> (err \<noteq> None \<longrightarrow> err = Some WriteFailed)"
  using assms
proof (induction fuel arbitrary: t w)
  case 0
  then show ?case by simp
next
  case (Suc fuel)
  show ?case
  proof (cases "w < length p")
    case False
    then show ?thesis using Suc.prems by simp
  next
    case True
    let ?b = "refill clock t"
    let ?n = "if length p - w > ?b then ?b else length p - w"
    show ?thesis
    proof (cases "?n = 0")
      case z: True
      let ?t = "t\<lparr>bucket := ?b, slept := True, tick := Suc (tick t)\<rparr>"
      have "write_loop fuel clock sink_write ?t p w = Some (n, err, t')"
        using Suc.prems(1) True z by (simp add: Let_def)
      from Suc.IH [OF this Suc.prems(2)] show ?thesis by simp
    next
      case nz: False
      let ?q = "take ?n (drop w p)"
      have lq: "length ?q = ?n" by (auto simp: min_def)
      obtain m e s' where sw: "sink_write (inner t) ?q = (m, e, s')"
        by (cases "sink_write (inner t) ?q")
      have m: "m \<le> ?n" and s': "written_data s' = written_data (inner t) @ take m ?q"
        and e: "e = None \<longrightarrow> m = ?n" "e \<noteq> None \<longrightarrow> e = Some WriteFailed"
        using sw lq by (auto simp: sink_write_def split: option.splits if_splits simp del: length_take)
      have tq: "take m ?q = take m (drop w p)" using m by (simp add: min_def)
      let ?t = "t\<lparr>inner := s', bucket := ?b - m, slept := False, tick := Suc (tick t)\<rparr>"
      show ?thesis
      proof (cases e)
        case (Some x)
        then have "n = w + m" "err = e" "t' = ?t"
          using Suc.prems(1) True nz sw by (simp_all add: Let_def)
        then show ?thesis using m s' e Some True tq by (auto split: if_splits)
      next
        case None
        then have r: "write_loop fuel clock sink_write ?t p (w + m) = Some (n, err, t')"
          using Suc.prems(1) True nz sw by (simp add: Let_def)
        have wm: "w + m \<le> length p" using m True by (auto split: if_splits)
        from Suc.IH [OF r wm]
        have ih: "w + m \<le> n" "n \<le> length p"
          "written_data (inner t') = written_data s' @ take (n - (w + m)) (drop (w + m) p)"
          "err = None \<longrightarrow> n = length p" "err \<noteq> None \<longrightarrow> err = Some WriteFailed"
          by simp_all
        have "take m (drop w p) @ take (n - (w + m)) (drop (w + m) p) = take (n - w) (drop w p)"
        proof -
          have "take (n - w) (drop w p) = take (m + (n - (w + m))) (drop w p)"
            using ih(1) by simp
          also have "\<dots> = take m (drop w p) @ take (n - (w + m)) (drop m (drop w p))"
            by (rule take_add)
          finally show ?thesis by (simp add: add.commute)
        qed
        then show ?thesis using ih s' tq by auto
      qed
    qed
  qed
qed

text \<open>
  From 100 bytes per second on, a pass that has slept earns at least one byte, and \<open>Write\<close>
  returns within two passes per byte, with the whole buffer written.
\<close>

lemma sink_write_unbounded:
  "room s = None \<Longrightarrow> sink_write s q = (length q, None, s\<lparr>written_data := written_data s @ q\<rparr>)"
  by (simp add: sink_write_def)

lemma refill_le: "refill clock t \<le> bytesPerSec t"
  by (simp add: refill_def Let_def)

lemma refill_after_sleep:
  assumes "100 \<le> bytesPerSec t" and "slept t"
  shows "1 \<le> refill clock t"
proof -
  have "1000000000 \<le> sleep_ns * bytesPerSec t"
    using assms(1) by (simp add: sleep_ns_def)
  also have "\<dots> \<le> (clock (tick t) + sleep_ns) * bytesPerSec t"
    by (simp add: mult_le_mono1)
  finally have "1 \<le> ((clock (tick t) + sleep_ns) * bytesPerSec t) div 1000000000"
    by (simp add: div_greater_zero_iff Suc_le_eq)
  then show ?thesis using assms by (simp add: refill_def Let_def)
qed

lemma write_loop_delivers:
  assumes "100 \<le> bytesPerSec t" and "room (inner t) = None" and "w \<le> length p"
    and "if slept t then w < length p \<and> 2 * (length p - w) \<le> fuel
         else 2 * (length p - w) + 1 \<le> fuel"
  shows "\<exists>t'. write_loop fuel clock sink_write t p w = Some (length p, None, t')
            \<and> written_data (inner t') = written_data (inner t) @ drop w p"
  using assms
proof (induction fuel arbitrary: t w)
  case 0
  then show ?case by (auto split: if_splits)
next
  case (Suc fuel)
  show ?case
  proof (cases "w < length p")
    case False
    then show ?thesis using Suc.prems(3) by simp
  next
    case True
    let ?b = "refill clock t"
    let ?n = "if length p - w > ?b then ?b else length p - w"
    show ?thesis
    proof (cases "?n = 0")
      case z: True
      then have b0: "?b = 0" using True by (auto split: if_splits)
      have ns: "\<not> slept t" using refill_after_sleep [OF Suc.prems(1), of clock] b0 by auto
      let ?t = "t\<lparr>bucket := ?b, slept := True, tick := Suc (tick t)\<rparr>"
      have step: "write_loop (Suc fuel) clock sink_write t p w = write_loop fuel clock sink_write ?t p w"
        using True z by (simp add: Let_def)
      have "\<exists>t'. write_loop fuel clock sink_write ?t p w = Some (length p, None, t')
            \<and> written_data (inner t') = written_data (inner ?t) @ drop w p"
        by (rule Suc.IH) (use Suc.prems True ns in auto)
      then show ?thesis using step by simp
    next
      case nz: False
      let ?q = "take ?n (drop w p)"
      have lq: "length ?q = ?n" by (auto simp: min_def)
      let ?t = "t\<lparr>inner := (inner t)\<lparr>written_data := written_data (inner t) @ ?q\<rparr>,
                   bucket := ?b - ?n, slept := False, tick := Suc (tick t)\<rparr>"
      have step: "write_loop (Suc fuel) clock sink_write t p w
           = write_loop fuel clock sink_write ?t p (w + ?n)"
        using True nz sink_write_unbounded [OF Suc.prems(2), of ?q] lq
        by (simp add: Let_def del: length_take)
      have fuel: "2 * (length p - w) \<le> Suc fuel" using Suc.prems(4) by (auto split: if_splits)
      have "\<exists>t'. write_loop fuel clock sink_write ?t p (w + ?n) = Some (length p, None, t')
            \<and> written_data (inner t') = written_data (inner ?t) @ drop (w + ?n) p"
        by (rule Suc.IH) (use Suc.prems True nz fuel in \<open>auto split: if_splits\<close>)
      moreover have "?q @ drop (w + ?n) p = drop w p"
        by (metis add.commute append_take_drop_id drop_drop)
      ultimately show ?thesis using step by auto
    qed
  qed
qed

lemma ThrottledWriter_delivers:
  assumes "100 \<le> bps"
  shows "\<exists>t'. ThrottledWriter_Write (2 * length p + 1) clock sink_write
                 (NewThrottled \<lparr>written_data = d, room = None\<rparr> bps) p = Some (length p, None, t')
            \<and> written_data (inner t') = d @ p"
  using write_loop_delivers [of "NewThrottled \<lparr>written_data = d, room = None\<rparr> bps" 0 p
      "2 * length p + 1" clock] assms
  by (simp add: ThrottledWriter_Write_def NewThrottled_def)

text \<open>
  Claim C5 fails at low limits. At 2 bytes per second, with 1 ms of work between two readings
  of the clock, 3 bytes are never delivered: \<open>Write\<close> passes on 2 bytes and does not return,
  whatever the number of iterations; a copy through the reader moves 2 bytes and does not
  return either.
\<close>

theorem throttle_starves_at_low_rate:
  "(\<forall>fuel. ThrottledWriter_Write fuel (\<lambda>k. 1000000) sink_write
        (NewThrottled \<lparr>written_data = [], room = None\<rparr> 2) [1, 2, 3] = None)
   \<and> (\<forall>fuel. CopyWithContext fuel (\<lambda>k. None) sink_write
        (ThrottledReader_Read (\<lambda>k. 1000000) mem_read)
        \<lparr>written_data = [], room = None\<rparr> (NewThrottled [1, 2, 3] 2) = None)"
proof (intro conjI allI)
  fix fuel
  let ?s = "\<lparr>written_data = [], room = None\<rparr>"
  let ?t1 = "\<lparr>inner = \<lparr>written_data = [1::byte, 2], room = None\<rparr>, bytesPerSec = 2,
               bucket = 0, slept = False, tick = Suc 0\<rparr>"
  show "ThrottledWriter_Write fuel (\<lambda>k. 1000000) sink_write (NewThrottled ?s 2) [1, 2, 3] = None"
  proof (cases fuel)
    case 0
    then show ?thesis by (simp add: ThrottledWriter_Write_def)
  next
    case (Suc f)
    have "write_loop (Suc f) (\<lambda>k. 1000000) sink_write (NewThrottled ?s 2) [1, 2, 3] 0
        = write_loop f (\<lambda>k. 1000000) sink_write ?t1 [1, 2, 3] (Suc (Suc 0))"
      by (simp add: NewThrottled_def refill_def sink_write_def)
    also have "\<dots> = None"
      by (rule write_loop_starved) (simp_all add: sleep_ns_def)
    finally show ?thesis by (simp add: ThrottledWriter_Write_def Suc)
  qed
  let ?t2 = "\<lparr>inner = [3::byte], bytesPerSec = 2, bucket = 0, slept = False, tick = Suc 0\<rparr>"
  show "CopyWithContext fuel (\<lambda>k. None) sink_write (ThrottledReader_Read (\<lambda>k. 1000000) mem_read)
        ?s (NewThrottled [1, 2, 3] 2) = None"
  proof (cases fuel)
    case 0
    then show ?thesis by (simp add: CopyWithContext_def)
  next
    case (Suc f)
    have rd: "ThrottledReader_Read (\<lambda>k. 1000000) mem_read (NewThrottled [1, 2, 3] 2) 32768
        = ([1, 2], None, ?t2)"
      by (simp add: ThrottledReader_Read_def NewThrottled_def refill_def mem_read_def)
    have "copy_loop (Suc f) (\<lambda>k. None) sink_write (ThrottledReader_Read (\<lambda>k. 1000000) mem_read) 0
          ?s (NewThrottled [1, 2, 3] 2) 0
        = copy_loop f (\<lambda>k. None) sink_write (ThrottledReader_Read (\<lambda>k. 1000000) mem_read) (Suc 0)
          \<lparr>written_data = [1, 2], room = None\<rparr> ?t2 (Suc (Suc 0))"
      by (simp add: rd sink_write_def)
    also have "\<dots> = None"
      by (rule copy_loop_starved) (simp_all add: sleep_ns_def)
    finally show ?thesis by (simp add: CopyWithContext_def Suc)
  qed
qed

section \<open>Properties: transfer orchestrator\<close>

subsection \<open>The loops, entry by entry\<close>

text \<open>
  A directory that lists (and whose mirror or remote directory is made) returns what its loop
  returns.
\<close>

lemma downloadDirectory_loop:
  "\<exists>lp' st'. downloadDirectory fp opts dev None None files rp lp st
             = download_entries fp opts dev files rp lp' st'"
  by (auto simp: Let_def)

lemma uploadDirectory_loop:
  "\<exists>dp' st'. uploadDirectory fp opts None None entries lp dev rp st
             = upload_entries fp opts entries lp dev dp' st'"
  by (auto simp: Let_def mkdir_failure_def)

lemma download_entries_Cons:
  "download_entries fp opts dev (f # fs) rp lp st =
     (case download_entry fp opts dev f rp lp st of
        (Some e, st') \<Rightarrow>
          if Force opts then download_entries fp opts dev fs rp lp (record_error e st')
          else (Some e, st')
      | (None, st') \<Rightarrow> download_entries fp opts dev fs rp lp st')"
  by (simp add: download_entry_def)

lemma upload_entries_Cons:
  "upload_entries fp opts (f # fs) lp dev dp st =
     (case upload_entry fp opts f lp dev dp st of
        (Some e, st') \<Rightarrow>
          if Force opts then upload_entries fp opts fs lp dev dp (record_error e st')
          else (Some e, st')
      | (None, st') \<Rightarrow> upload_entries fp opts fs lp dev dp st')"
  by (simp add: upload_entry_def)

lemma download_entries_append:
  "download_entries fp opts dev (xs @ ys) rp lp st =
     (case download_entries fp opts dev xs rp lp st of
        (None, st1) \<Rightarrow> download_entries fp opts dev ys rp lp st1
      | (Some e, st1) \<Rightarrow> (Some e, st1))"
proof (induction xs arbitrary: st)
  case Nil
  then show ?case by simp
next
  case (Cons x xs)
  show ?case
    unfolding append_Cons download_entries_Cons
    by (simp add: Cons.IH split: prod.splits option.splits)
qed

lemma upload_entries_append:
  "upload_entries fp opts (xs @ ys) lp dev dp st =
     (case upload_entries fp opts xs lp dev dp st of
        (None, st1) \<Rightarrow> upload_entries fp opts ys lp dev dp st1
      | (Some e, st1) \<Rightarrow> (Some e, st1))"
proof (induction xs arbitrary: st)
  case Nil
  then show ?case by simp
next
  case (Cons x xs)
  show ?case
    unfolding append_Cons upload_entries_Cons
    by (simp add: Cons.IH split: prod.splits option.splits)
qed

lemma download_entries_force_None:
  "Force opts \<Longrightarrow> fst (download_entries fp opts dev fs rp lp st) = None"
proof (induction fs arbitrary: st)
  case Nil
  then show ?case by simp
next
  case (Cons f fs)
  show ?case
    unfolding download_entries_Cons
    using Cons.prems by (simp add: Cons.IH split: prod.splits option.splits)
qed

lemma upload_entries_force_None:
  "Force opts \<Longrightarrow> fst (upload_entries fp opts fs lp dev dp st) = None"
proof (induction fs arbitrary: st)
  case Nil
  then show ?case by simp
next
  case (Cons f fs)
  show ?case
    unfolding upload_entries_Cons
    using Cons.prems by (simp add: Cons.IH split: prod.splits option.splits)
qed

text \<open>
  A relation between the state before and after that holds across every step of a traversal
  holds across the traversal.
\<close>

lemma download_entries_lift:
  assumes refl: "\<And>s. R s s" and trans: "\<And>a b c. R a b \<Longrightarrow> R b c \<Longrightarrow> R a c"
    and rec: "\<And>e s. R s (record_error e s)"
    and each: "\<And>f rp lp s. f \<in> set fs \<Longrightarrow> R s (snd (download_entry fp opts dev f rp lp s))"
  shows "R st (snd (download_entries fp opts dev fs rp lp st))"
  using each
proof (induction fs arbitrary: st)
  case Nil
  then show ?case by (simp add: refl)
next
  case (Cons f fs)
  obtain r st1 where r: "download_entry fp opts dev f rp lp st = (r, st1)" by (cases "download_entry fp opts dev f rp lp st")
  have "R st (snd (download_entry fp opts dev f rp lp st))" by (rule Cons.prems) simp
  then have s1: "R st st1" using r by simp
  have ih: "R s (snd (download_entries fp opts dev fs rp lp s))" for s
    by (rule Cons.IH) (simp add: Cons.prems)
  show ?case
    unfolding download_entries_Cons r
  proof (cases r)
    case None
    then show "R st (snd (case (r, st1) of
        (Some e, st') \<Rightarrow>
          if Force opts then download_entries fp opts dev fs rp lp (record_error e st')
          else (Some e, st')
      | (None, st') \<Rightarrow> download_entries fp opts dev fs rp lp st'))"
      using trans [OF s1 ih [of st1]] by simp
  next
    case (Some e)
    have "R st (record_error e st1)" by (rule trans [OF s1 rec])
    then have "R st (snd (download_entries fp opts dev fs rp lp (record_error e st1)))"
      by (rule trans [OF _ ih])
    then show "R st (snd (case (r, st1) of
        (Some e, st') \<Rightarrow>
          if Force opts then download_entries fp opts dev fs rp lp (record_error e st')
          else (Some e, st')
      | (None, st') \<Rightarrow> download_entries fp opts dev fs rp lp st'))"
      using Some s1 by simp
  qed
qed

lemma download_lift:
  assumes refl: "\<And>s. R s s" and trans: "\<And>a b c. R a b \<Longrightarrow> R b c \<Longrightarrow> R a c"
    and rec: "\<And>e s. R s (record_error e s)"
    and lst: "\<And>d p s. R s (emit (ListFiles d p) s)"
    and prt: "\<And>f a s. R s (emit (Printf f a) s)"
    and mkd: "\<And>p s. \<not> DryRun opts \<Longrightarrow> R s (emit (OsMkdirAll p) s)"
    and leaf: "\<And>rp lp sz env s. R s (snd (downloadFile fp opts dev rp lp sz env s))"
  shows "R st (snd (download_entry fp opts dev f rp lp st))"
proof (induction f arbitrary: rp lp st)
  case (RFile name sz env)
  show ?case by (simp add: download_entry_def leaf)
next
  case (RDir name le me children)
  have loop: "R s (snd (download_entries fp opts dev children rp' lp' s))" for s rp' lp'
  proof (rule download_entries_lift)
    show "\<And>s. R s s" by (rule refl)
    show "\<And>a b c. R a b \<Longrightarrow> R b c \<Longrightarrow> R a c" by (rule trans)
    show "\<And>e s. R s (record_error e s)" by (rule rec)
    show "\<And>f rp lp s. f \<in> set children \<Longrightarrow> R s (snd (download_entry fp opts dev f rp lp s))"
      by (rule RDir.IH)
  qed
  show ?case
    unfolding download_entry_def rnode.case downloadDirectory.simps Let_def
    by (auto split: option.splits) (meson trans lst prt mkd loop)+
qed

lemma upload_entries_lift:
  assumes refl: "\<And>s. R s s" and trans: "\<And>a b c. R a b \<Longrightarrow> R b c \<Longrightarrow> R a c"
    and rec: "\<And>e s. R s (record_error e s)"
    and each: "\<And>f lp dp s. f \<in> set fs \<Longrightarrow> R s (snd (upload_entry fp opts f lp dev dp s))"
  shows "R st (snd (upload_entries fp opts fs lp dev dp st))"
  using each
proof (induction fs arbitrary: st)
  case Nil
  then show ?case by (simp add: refl)
next
  case (Cons f fs)
  obtain r st1 where r: "upload_entry fp opts f lp dev dp st = (r, st1)"
    by (cases "upload_entry fp opts f lp dev dp st")
  have "R st (snd (upload_entry fp opts f lp dev dp st))" by (rule Cons.prems) simp
  then have s1: "R st st1" using r by simp
  have ih: "R s (snd (upload_entries fp opts fs lp dev dp s))" for s
    by (rule Cons.IH) (simp add: Cons.prems)
  show ?case
    unfolding upload_entries_Cons r
  proof (cases r)
    case None
    then show "R st (snd (case (r, st1) of
        (Some e, st') \<Rightarrow>
          if Force opts then upload_entries fp opts fs lp dev dp (record_error e st')
          else (Some e, st')
      | (None, st') \<Rightarrow> upload_entries fp opts fs lp dev dp st'))"
      using trans [OF s1 ih [of st1]] by simp
  next
    case (Some e)
    have "R st (record_error e st1)" by (rule trans [OF s1 rec])
    then have "R st (snd (upload_entries fp opts fs lp dev dp (record_error e st1)))"
      by (rule trans [OF _ ih])
    then show "R st (snd (case (r, st1) of
        (Some e, st') \<Rightarrow>
          if Force opts then upload_entries fp opts fs lp dev dp (record_error e st')
          else (Some e, st')
      | (None, st') \<Rightarrow> upload_entries fp opts fs lp dev dp st'))"
      using Some s1 by simp
  qed
qed

lemma upload_lift:
  assumes refl: "\<And>s. R s s" and trans: "\<And>a b c. R a b \<Longrightarrow> R b c \<Longrightarrow> R a c"
    and rec: "\<And>e s. R s (record_error e s)"
    and prt: "\<And>f a s. R s (emit (Printf f a) s)"
    and rdd: "\<And>p s. R s (emit (OsReadDir p) s)"
    and mkd: "\<And>d p s. \<not> DryRun opts \<Longrightarrow> R s (emit (MkdirOnDevice d p) s)"
    and leaf: "\<And>name ie sz env lp dp s.
                 R s (snd (upload_file_entry fp opts name ie sz env lp dev dp s))"
  shows "R st (snd (upload_entry fp opts f lp dev dp st))"
proof (induction f arbitrary: lp dp st)
  case (LFile name ie sz env)
  show ?case by (simp add: upload_entry_def leaf)
next
  case (LDir name me re children)
  have loop: "R s (snd (upload_entries fp opts children lp' dev dp' s))" for s lp' dp'
  proof (rule upload_entries_lift)
    show "\<And>s. R s s" by (rule refl)
    show "\<And>a b c. R a b \<Longrightarrow> R b c \<Longrightarrow> R a c" by (rule trans)
    show "\<And>e s. R s (record_error e s)" by (rule rec)
    show "\<And>f lp dp s. f \<in> set children \<Longrightarrow> R s (snd (upload_entry fp opts f lp dev dp s))"
      by (rule LDir.IH)
  qed
  show ?case
    unfolding upload_entry_def lnode.case uploadDirectory.simps Let_def
    by (auto split: option.splits simp: mkdir_failure_def) (meson trans prt rdd mkd loop)+
qed

lemma keeps_refl: "keeps st st"
  by (simp add: keeps_def)

lemma keeps_trans: "keeps a b \<Longrightarrow> keeps b c \<Longrightarrow> keeps a c"
  by (auto simp: keeps_def)

lemma keeps_emit: "keeps st (emit e st)"
  by (simp add: keeps_def emit_def)

lemma keeps_record_error: "keeps st (record_error e st)"
  by (simp add: keeps_def record_error_def)

lemma keeps_count_file: "keeps st (count_file n st)"
  by (simp add: keeps_def count_file_def)

lemma keeps_downloadFile: "keeps st (snd (downloadFile fp opts dev rp lp sz env st))"
  unfolding downloadFile_def Let_def
  by (auto split: option.splits sum.splits prod.splits simp: keeps_refl keeps_emit)
     (meson keeps_trans keeps_emit keeps_count_file)+

lemma keeps_download_entries: "keeps st (snd (download_entries fp opts dev fs rp lp st))"
  by (rule download_entries_lift [where R = keeps])
     (auto intro: keeps_refl keeps_record_error keeps_emit keeps_downloadFile
           intro!: download_lift [where R = keeps] elim: keeps_trans)

lemma keeps_uploadFile: "keeps st (snd (uploadFile fp opts lp dev rp sz env st))"
  unfolding uploadFile_def Let_def
  by (auto split: option.splits simp: keeps_refl keeps_emit)
     (meson keeps_trans keeps_emit keeps_count_file)+

lemma keeps_upload_file_entry:
  "keeps st (snd (upload_file_entry fp opts name ie sz env lp dev dp st))"
  unfolding upload_file_entry_def Let_def
  by (auto split: option.splits simp: keeps_emit) (meson keeps_trans keeps_emit keeps_uploadFile)+

lemma keeps_upload_entries: "keeps st (snd (upload_entries fp opts fs lp dev dp st))"
  by (rule upload_entries_lift [where R = keeps])
     (auto intro: keeps_refl keeps_record_error keeps_emit keeps_upload_file_entry
           intro!: upload_lift [where R = keeps] elim: keeps_trans)

text \<open>Every entry that is processed leaves at least one event in the trace.\<close>

lemma keeps_length: "keeps st st' \<Longrightarrow> length (trace st) \<le> length (trace st')"
  by (auto simp: keeps_def dest: prefix_length_le)

lemma download_entry_emits:
  "length (trace st) < length (trace (snd (download_entry fp opts dev f rp lp st)))"
proof (cases f)
  case (RFile name sz env)
  show ?thesis
    unfolding RFile download_entry_def rnode.case downloadFile_def Let_def
    by (auto split: option.splits sum.splits prod.splits simp: emit_def count_file_def)
next
  case (RDir name le me children)
  have a: "length (trace st) < length (trace (emit ev st))" for ev by (simp add: emit_def)
  have b: "length (trace s) \<le> length (trace (snd (download_entries fp opts dev children rp' lp' s)))"
    for s rp' lp' by (rule keeps_length [OF keeps_download_entries])
  have c: "length (trace s) \<le> length (trace (emit ev s))" for ev s by (simp add: emit_def)
  show ?thesis
    unfolding RDir download_entry_def rnode.case downloadDirectory.simps Let_def
    by (auto split: option.splits simp: a) (meson a b c less_le_trans le_trans)+
qed

lemma download_entries_emit:
  "Force opts \<Longrightarrow>
   length (trace st) + length fs \<le> length (trace (snd (download_entries fp opts dev fs rp lp st)))"
proof (induction fs arbitrary: st)
  case Nil
  then show ?case by simp
next
  case (Cons f fs)
  obtain r st1 where r: "download_entry fp opts dev f rp lp st = (r, st1)"
    by (cases "download_entry fp opts dev f rp lp st")
  have s1: "length (trace st) < length (trace st1)"
    using download_entry_emits [of st fp opts dev f rp lp] r by simp
  have t: "trace (record_error e st1) = trace st1" for e by (simp add: record_error_def)
  show ?case
  proof (cases r)
    case None
    then show ?thesis
      unfolding download_entries_Cons r
      using s1 Cons.IH [OF Cons.prems, of st1] by simp
  next
    case (Some e)
    then show ?thesis
      unfolding download_entries_Cons r
      using s1 Cons.IH [OF Cons.prems, of "record_error e st1"] Cons.prems
      by (simp add: t)
  qed
qed

lemma upload_entry_emits:
  "length (trace st) < length (trace (snd (upload_entry fp opts f lp dev dp st)))"
proof (cases f)
  case (LFile name ie sz env)
  have a: "length (trace st) < length (trace (emit ev st))" for ev by (simp add: emit_def)
  have b: "length (trace s) \<le> length (trace (snd (uploadFile fp opts lp' dev rp' sz env s)))"
    for s lp' rp' by (rule keeps_length [OF keeps_uploadFile])
  show ?thesis
    unfolding LFile upload_entry_def lnode.case upload_file_entry_def Let_def
    by (auto split: option.splits simp: a) (meson a b less_le_trans)+
next
  case (LDir name me re children)
  have a: "length (trace st) < length (trace (emit ev st))" for ev by (simp add: emit_def)
  have b: "length (trace s) \<le> length (trace (snd (upload_entries fp opts children lp' dev dp' s)))"
    for s lp' dp' by (rule keeps_length [OF keeps_upload_entries])
  have c: "length (trace s) \<le> length (trace (emit ev s))" for ev s by (simp add: emit_def)
  show ?thesis
    unfolding LDir upload_entry_def lnode.case uploadDirectory.simps Let_def
    by (auto split: option.splits simp: a) (meson a b c less_le_trans le_trans)+
qed

lemma upload_entries_emit:
  "Force opts \<Longrightarrow>
   length (trace st) + length fs \<le> length (trace (snd (upload_entries fp opts fs lp dev dp st)))"
proof (induction fs arbitrary: st)
  case Nil
  then show ?case by simp
next
  case (Cons f fs)
  obtain r st1 where r: "upload_entry fp opts f lp dev dp st = (r, st1)"
    by (cases "upload_entry fp opts f lp dev dp st")
  have s1: "length (trace st) < length (trace st1)"
    using upload_entry_emits [of st fp opts f lp dev dp] r by simp
  have t: "trace (record_error e st1) = trace st1" for e by (simp add: record_error_def)
  show ?case
  proof (cases r)
    case None
    then show ?thesis
      unfolding upload_entries_Cons r
      using s1 Cons.IH [OF Cons.prems, of st1] by simp
  next
    case (Some e)
    then show ?thesis
      unfolding upload_entries_Cons r
      using s1 Cons.IH [OF Cons.prems, of "record_error e st1"] Cons.prems
      by (simp add: t)
  qed
qed

lemma downloadFile_good:
  "\<not> DryRun opts \<Longrightarrow> fst (downloadFile fp opts dev rp lp sz (good_download n) st) = None"
  by (simp add: downloadFile_def good_download_def Let_def)

lemma downloadFile_bad:
  "\<not> DryRun opts \<Longrightarrow> fst (downloadFile fp opts dev rp lp sz (bad_download e) st) = Some e"
  by (simp add: downloadFile_def bad_download_def Let_def)

lemma uploadFile_good:
  "\<not> DryRun opts \<Longrightarrow> fst (uploadFile fp opts lp dev rp sz (good_upload n) st) = None"
  by (simp add: uploadFile_def good_upload_def Let_def)

lemma uploadFile_bad:
  "\<not> DryRun opts \<Longrightarrow> fst (uploadFile fp opts lp dev rp sz (bad_upload e) st) = Some e"
  by (simp add: uploadFile_def bad_upload_def Let_def)

subsection \<open>Partial failure\<close>

text \<open>
  Claim C3. In the loop of \<open>downloadDirectory\<close>, and in the loop of \<open>uploadDirectory\<close>: let the
  entries before \<open>c\<close> pass without error and \<open>c\<close> fail with \<open>e\<close>. Under \<open>Force\<close> the loop ends
  without error, in the state reached by recording \<open>e\<close> and running the loop over the entries
  after \<open>c\<close>; \<open>e\<close> is in the final error list, and each of the entries after \<open>c\<close> has left an
  event in the trace. Without \<open>Force\<close> the loop returns \<open>e\<close> in the state \<open>c\<close> left, whatever
  follows \<open>c\<close>.
\<close>

theorem child_failure_force_or_abort:
  "(download_entries fp opts dev before rp lp st0 = (None, st1)
      \<and> download_entry fp opts dev c rp lp st1 = (Some e, st2) \<longrightarrow>
      (if Force opts
       then (\<exists>st3. download_entries fp opts dev (before @ c # after) rp lp st0 = (None, st3)
               \<and> download_entries fp opts dev after rp lp (record_error e st2) = (None, st3)
               \<and> e \<in> set (Errors (result st3))
               \<and> length (trace st2) + length after \<le> length (trace st3))
       else download_entries fp opts dev (before @ c # after) rp lp st0 = (Some e, st2)))
   \<and> (upload_entries fp opts ubefore ulp dev dp ust0 = (None, ust1)
      \<and> upload_entry fp opts uc ulp dev dp ust1 = (Some ue, ust2) \<longrightarrow>
      (if Force opts
       then (\<exists>st3. upload_entries fp opts (ubefore @ uc # uafter) ulp dev dp ust0 = (None, st3)
               \<and> upload_entries fp opts uafter ulp dev dp (record_error ue ust2) = (None, st3)
               \<and> ue \<in> set (Errors (result st3))
               \<and> length (trace ust2) + length uafter \<le> length (trace st3))
       else upload_entries fp opts (ubefore @ uc # uafter) ulp dev dp ust0 = (Some ue, ust2)))"
proof (intro conjI impI; elim conjE)
  assume b: "download_entries fp opts dev before rp lp st0 = (None, st1)"
    and c: "download_entry fp opts dev c rp lp st1 = (Some e, st2)"
  let ?rest = "download_entries fp opts dev after rp lp (record_error e st2)"
  have whole: "download_entries fp opts dev (before @ c # after) rp lp st0 =
      (if Force opts then ?rest else (Some e, st2))"
    by (simp only: download_entries_append b download_entries_Cons c prod.case option.case)
  show "if Force opts
       then (\<exists>st3. download_entries fp opts dev (before @ c # after) rp lp st0 = (None, st3)
               \<and> download_entries fp opts dev after rp lp (record_error e st2) = (None, st3)
               \<and> e \<in> set (Errors (result st3))
               \<and> length (trace st2) + length after \<le> length (trace st3))
       else download_entries fp opts dev (before @ c # after) rp lp st0 = (Some e, st2)"
  proof (cases "Force opts")
    case True
    have n: "fst ?rest = None" by (rule download_entries_force_None [OF True])
    have "prefix (Errors (result (record_error e st2))) (Errors (result (snd ?rest)))"
      using keeps_download_entries [of "record_error e st2" fp opts dev after rp lp]
      by (simp add: keeps_def)
    then have m: "e \<in> set (Errors (result (snd ?rest)))"
      by (auto simp: record_error_def prefix_def)
    have l: "length (trace st2) + length after \<le> length (trace (snd ?rest))"
      using download_entries_emit [OF True, of "record_error e st2" after fp dev rp lp]
      by (simp add: record_error_def)
    have "?rest = (None, snd ?rest)" using n by (metis prod.collapse)
    then show ?thesis using True whole m l by auto
  next
    case False
    then show ?thesis using whole by simp
  qed
next
  assume b: "upload_entries fp opts ubefore ulp dev dp ust0 = (None, ust1)"
    and c: "upload_entry fp opts uc ulp dev dp ust1 = (Some ue, ust2)"
  let ?rest = "upload_entries fp opts uafter ulp dev dp (record_error ue ust2)"
  have whole: "upload_entries fp opts (ubefore @ uc # uafter) ulp dev dp ust0 =
      (if Force opts then ?rest else (Some ue, ust2))"
    by (simp only: upload_entries_append b upload_entries_Cons c prod.case option.case)
  show "if Force opts
       then (\<exists>st3. upload_entries fp opts (ubefore @ uc # uafter) ulp dev dp ust0 = (None, st3)
               \<and> upload_entries fp opts uafter ulp dev dp (record_error ue ust2) = (None, st3)
               \<and> ue \<in> set (Errors (result st3))
               \<and> length (trace ust2) + length uafter \<le> length (trace st3))
       else upload_entries fp opts (ubefore @ uc # uafter) ulp dev dp ust0 = (Some ue, ust2)"
  proof (cases "Force opts")
    case True
    have n: "fst ?rest = None" by (rule upload_entries_force_None [OF True])
    have "prefix (Errors (result (record_error ue ust2))) (Errors (result (snd ?rest)))"
      using keeps_upload_entries [of "record_error ue ust2" fp opts uafter ulp dev dp]
      by (simp add: keeps_def)
    then have m: "ue \<in> set (Errors (result (snd ?rest)))"
      by (auto simp: record_error_def prefix_def)
    have l: "length (trace ust2) + length uafter \<le> length (trace (snd ?rest))"
      using upload_entries_emit [OF True, of "record_error ue ust2" uafter fp ulp dev dp]
      by (simp add: record_error_def)
    have "?rest = (None, snd ?rest)" using n by (metis prod.collapse)
    then show ?thesis using True whole m l by auto
  next
    case False
    then show ?thesis using whole by simp
  qed
qed

text \<open>A directory of two files whose first fails, downloaded and uploaded, with and without \<open>Force\<close>.\<close>

theorem child_failure_force_or_abort_witness:
  "fst (download_entries unix_filepath (plain_opts\<lparr>Force := True\<rparr>) ''dev''
          (RFile ''b'' 2 (bad_download ''boom'') # [RFile ''c'' 3 (good_download 3)])
          ''/r'' ''l'' (new_run [])) = None
   \<and> ''boom'' \<in> set (Errors (result (snd (download_entries unix_filepath (plain_opts\<lparr>Force := True\<rparr>)
          ''dev'' (RFile ''b'' 2 (bad_download ''boom'') # [RFile ''c'' 3 (good_download 3)])
          ''/r'' ''l'' (new_run [])))))
   \<and> fst (download_entries unix_filepath plain_opts ''dev''
          (RFile ''b'' 2 (bad_download ''boom'') # [RFile ''c'' 3 (good_download 3)])
          ''/r'' ''l'' (new_run [])) = Some ''boom''
   \<and> fst (upload_entries unix_filepath (plain_opts\<lparr>Force := True\<rparr>)
          (LFile ''b'' None 2 (bad_upload ''boom'') # [LFile ''c'' None 3 (good_upload 3)])
          ''l'' ''dev'' ''/r'' (new_run [])) = None
   \<and> fst (upload_entries unix_filepath plain_opts
          (LFile ''b'' None 2 (bad_upload ''boom'') # [LFile ''c'' None 3 (good_upload 3)])
          ''l'' ''dev'' ''/r'' (new_run [])) = Some ''boom''"
proof -
  let ?f = "plain_opts\<lparr>Force := True\<rparr>"
  let ?b = "RFile ''b'' 2 (bad_download ''boom'')"
  let ?ub = "LFile ''b'' None 2 (bad_upload ''boom'')"
  have nd: "\<not> DryRun ?f" "\<not> DryRun plain_opts" "Force ?f" "\<not> Force plain_opts"
    by (simp_all add: plain_opts_def)
  have d: "download_entry unix_filepath opts ''dev'' ?b ''/r'' ''l'' (new_run [])
      = (Some ''boom'', snd (download_entry unix_filepath opts ''dev'' ?b ''/r'' ''l'' (new_run [])))"
    if "\<not> DryRun opts" for opts
    using downloadFile_bad [OF that] by (simp add: download_entry_def prod_eq_iff)
  have u: "upload_entry unix_filepath opts ?ub ''l'' ''dev'' ''/r'' (new_run [])
      = (Some ''boom'', snd (upload_entry unix_filepath opts ?ub ''l'' ''dev'' ''/r'' (new_run [])))"
    if "\<not> DryRun opts" for opts
    using uploadFile_bad [OF that]
    by (simp add: upload_entry_def upload_file_entry_def prod_eq_iff Let_def)
  let ?after = "[RFile ''c'' 3 (good_download 3)]"
  let ?uafter = "[LFile ''c'' None 3 (good_upload 3)]"
  have e0: "download_entries unix_filepath opts ''dev'' [] ''/r'' ''l'' (new_run []) = (None, new_run [])"
    for opts by simp
  have ue0: "upload_entries unix_filepath opts [] ''l'' ''dev'' ''/r'' (new_run []) = (None, new_run [])"
    for opts by simp
  have a1: "if Force ?f
       then (\<exists>st3. download_entries unix_filepath ?f ''dev'' ([] @ ?b # ?after) ''/r'' ''l'' (new_run []) = (None, st3)
               \<and> download_entries unix_filepath ?f ''dev'' ?after ''/r'' ''l''
                    (record_error ''boom'' (snd (download_entry unix_filepath ?f ''dev'' ?b ''/r'' ''l'' (new_run [])))) = (None, st3)
               \<and> ''boom'' \<in> set (Errors (result st3))
               \<and> length (trace (snd (download_entry unix_filepath ?f ''dev'' ?b ''/r'' ''l'' (new_run []))))
                    + length ?after \<le> length (trace st3))
       else download_entries unix_filepath ?f ''dev'' ([] @ ?b # ?after) ''/r'' ''l'' (new_run [])
              = (Some ''boom'', snd (download_entry unix_filepath ?f ''dev'' ?b ''/r'' ''l'' (new_run [])))"
    by (rule child_failure_force_or_abort [THEN conjunct1, rule_format]) (rule conjI [OF e0 d [OF nd(1)]])
  have a2: "if Force plain_opts
       then (\<exists>st3. download_entries unix_filepath plain_opts ''dev'' ([] @ ?b # ?after) ''/r'' ''l'' (new_run []) = (None, st3)
               \<and> download_entries unix_filepath plain_opts ''dev'' ?after ''/r'' ''l''
                    (record_error ''boom'' (snd (download_entry unix_filepath plain_opts ''dev'' ?b ''/r'' ''l'' (new_run [])))) = (None, st3)
               \<and> ''boom'' \<in> set (Errors (result st3))
               \<and> length (trace (snd (download_entry unix_filepath plain_opts ''dev'' ?b ''/r'' ''l'' (new_run []))))
                    + length ?after \<le> length (trace st3))
       else download_entries unix_filepath plain_opts ''dev'' ([] @ ?b # ?after) ''/r'' ''l'' (new_run [])
              = (Some ''boom'', snd (download_entry unix_filepath plain_opts ''dev'' ?b ''/r'' ''l'' (new_run [])))"
    by (rule child_failure_force_or_abort [THEN conjunct1, rule_format]) (rule conjI [OF e0 d [OF nd(2)]])
  have a3: "if Force ?f
       then (\<exists>st3. upload_entries unix_filepath ?f ([] @ ?ub # ?uafter) ''l'' ''dev'' ''/r'' (new_run []) = (None, st3)
               \<and> upload_entries unix_filepath ?f ?uafter ''l'' ''dev'' ''/r''
                    (record_error ''boom'' (snd (upload_entry unix_filepath ?f ?ub ''l'' ''dev'' ''/r'' (new_run [])))) = (None, st3)
               \<and> ''boom'' \<in> set (Errors (result st3))
               \<and> length (trace (snd (upload_entry unix_filepath ?f ?ub ''l'' ''dev'' ''/r'' (new_run []))))
                    + length ?uafter \<le> length (trace st3))
       else upload_entries unix_filepath ?f ([] @ ?ub # ?uafter) ''l'' ''dev'' ''/r'' (new_run [])
              = (Some ''boom'', snd (upload_entry unix_filepath ?f ?ub ''l'' ''dev'' ''/r'' (new_run [])))"
    by (rule child_failure_force_or_abort [THEN conjunct2, rule_format]) (rule conjI [OF ue0 u [OF nd(1)]])
  have a4: "if Force plain_opts
       then (\<exists>st3. upload_entries unix_filepath plain_opts ([] @ ?ub # ?uafter) ''l'' ''dev'' ''/r'' (new_run []) = (None, st3)
               \<and> upload_entries unix_filepath plain_opts ?uafter ''l'' ''dev'' ''/r''
                    (record_error ''boom'' (snd (upload_entry unix_filepath plain_opts ?ub ''l'' ''dev'' ''/r'' (new_run [])))) = (None, st3)
               \<and> ''boom'' \<in> set (Errors (result st3))
               \<and> length (trace (snd (upload_entry unix_filepath plain_opts ?ub ''l'' ''dev'' ''/r'' (new_run []))))
                    + length ?uafter \<le> length (trace st3))
       else upload_entries unix_filepath plain_opts ([] @ ?ub # ?uafter) ''l'' ''dev'' ''/r'' (new_run [])
              = (Some ''boom'', snd (upload_entry unix_filepath plain_opts ?ub ''l'' ''dev'' ''/r'' (new_run [])))"
    by (rule child_failure_force_or_abort [THEN conjunct2, rule_format]) (rule conjI [OF ue0 u [OF nd(2)]])
  from a1 nd(3) obtain s1 where
    "download_entries unix_filepath ?f ''dev'' ([] @ ?b # ?after) ''/r'' ''l'' (new_run []) = (None, s1)"
    "''boom'' \<in> set (Errors (result s1))"
    by (simp only: if_True) blast
  moreover from a2 nd(4) have
    "download_entries unix_filepath plain_opts ''dev'' ([] @ ?b # ?after) ''/r'' ''l'' (new_run [])
       = (Some ''boom'', snd (download_entry unix_filepath plain_opts ''dev'' ?b ''/r'' ''l'' (new_run [])))"
    by (simp only: if_False)
  moreover from a3 nd(3) obtain s3 where
    "upload_entries unix_filepath ?f ([] @ ?ub # ?uafter) ''l'' ''dev'' ''/r'' (new_run []) = (None, s3)"
    by (simp only: if_True) blast
  moreover from a4 nd(4) have
    "upload_entries unix_filepath plain_opts ([] @ ?ub # ?uafter) ''l'' ''dev'' ''/r'' (new_run [])
       = (Some ''boom'', snd (upload_entry unix_filepath plain_opts ?ub ''l'' ''dev'' ''/r'' (new_run [])))"
    by (simp only: if_False)
  ultimately show ?thesis
    by (simp only: append_Nil fst_conv snd_conv simp_thms)
qed

lemmas transfer_eval = Upload_def one_file_env_def plain_opts_def good_upload_def uploadFile_def
  new_run_def emit_def count_file_def ResolveRemoteDestination_def IsDirectory_def HasSuffix_def
  JoinRemotePath_def BaseName_def TrimSuffix_def unix_filepath_def Let_def

subsection \<open>Dry run\<close>

text \<open>
  Under \<open>DryRun\<close> neither counter of the result moves, and no event of the trace is a mutation:
  every leaf returns right after its \<open>Would ...\<close> line, before \<open>FilesTransferred\<close> is incremented.
\<close>

lemma dry_ok_refl: "dry_ok st st"
  by (simp add: dry_ok_def)

lemma dry_ok_trans: "dry_ok a b \<Longrightarrow> dry_ok b c \<Longrightarrow> dry_ok a c"
  by (auto simp: dry_ok_def)

lemma dry_ok_emit: "\<not> is_mutation e \<Longrightarrow> dry_ok st (emit e st)"
  by (simp add: dry_ok_def emit_def)

lemma dry_ok_record_error: "dry_ok st (record_error e st)"
  by (simp add: dry_ok_def record_error_def)

lemma dry_ok_downloadFile:
  "DryRun opts \<Longrightarrow> dry_ok st (snd (downloadFile fp opts dev rp lp sz env st))"
  by (simp add: downloadFile_def Let_def dry_ok_emit)

lemma dry_ok_uploadFile:
  "DryRun opts \<Longrightarrow> dry_ok st (snd (uploadFile fp opts lp dev rp sz env st))"
  by (simp add: uploadFile_def dry_ok_emit)

lemma dry_ok_upload_file_entry:
  "DryRun opts \<Longrightarrow> dry_ok st (snd (upload_file_entry fp opts name ie sz env lp dev dp st))"
  unfolding upload_file_entry_def Let_def
  by (auto split: option.splits simp: dry_ok_emit intro: dry_ok_trans [OF dry_ok_emit dry_ok_uploadFile])

lemma dry_ok_download_entry:
  assumes "DryRun opts"
  shows "dry_ok st (snd (download_entry fp opts dev f rp lp st))"
proof (rule download_lift [where R = dry_ok])
  show "\<And>a b c. dry_ok a b \<Longrightarrow> dry_ok b c \<Longrightarrow> dry_ok a c" by (rule dry_ok_trans)
qed (simp_all add: dry_ok_refl dry_ok_record_error dry_ok_emit dry_ok_downloadFile assms)

lemma dry_ok_upload_entry:
  assumes "DryRun opts"
  shows "dry_ok st (snd (upload_entry fp opts f lp dev dp st))"
proof (rule upload_lift [where R = dry_ok])
  show "\<And>a b c. dry_ok a b \<Longrightarrow> dry_ok b c \<Longrightarrow> dry_ok a c" by (rule dry_ok_trans)
qed (simp_all add: dry_ok_refl dry_ok_record_error dry_ok_emit dry_ok_upload_file_entry assms)

lemma dry_ok_download_entries:
  assumes "DryRun opts"
  shows "dry_ok st (snd (download_entries fp opts dev fs rp lp st))"
proof (rule download_entries_lift [where R = dry_ok])
  show "\<And>a b c. dry_ok a b \<Longrightarrow> dry_ok b c \<Longrightarrow> dry_ok a c" by (rule dry_ok_trans)
qed (simp_all add: dry_ok_refl dry_ok_record_error dry_ok_download_entry assms)

lemma dry_ok_upload_entries:
  assumes "DryRun opts"
  shows "dry_ok st (snd (upload_entries fp opts fs lp dev dp st))"
proof (rule upload_entries_lift [where R = dry_ok])
  show "\<And>a b c. dry_ok a b \<Longrightarrow> dry_ok b c \<Longrightarrow> dry_ok a c" by (rule dry_ok_trans)
qed (simp_all add: dry_ok_refl dry_ok_record_error dry_ok_upload_entry assms)

lemma dry_ok_downloadDirectory:
  assumes "DryRun opts"
  shows "dry_ok st (snd (downloadDirectory fp opts dev le me files rp lp st))"
proof -
  have a: "dry_ok s (emit (ListFiles d p) s)" "dry_ok s (emit (Printf f as) s)" for s d p f as
    by (simp_all add: dry_ok_emit)
  note b = dry_ok_download_entries [OF assms]
  show ?thesis
    unfolding downloadDirectory.simps Let_def
    using assms by (auto split: option.splits simp: a) (meson dry_ok_trans a b)+
qed

lemma dry_ok_uploadDirectory:
  assumes "DryRun opts"
  shows "dry_ok st (snd (uploadDirectory fp opts me re entries lp dev rp st))"
proof -
  have a: "dry_ok s (emit (OsReadDir p) s)" "dry_ok s (emit (Printf f as) s)" for s p f as
    by (simp_all add: dry_ok_emit)
  note b = dry_ok_upload_entries [OF assms]
  show ?thesis
    unfolding uploadDirectory.simps Let_def mkdir_failure_def
    using assms by (auto split: option.splits simp: a) (meson dry_ok_trans a b)+
qed

lemma dry_ok_upload_paths:
  assumes "DryRun opts"
  shows "dry_ok st (snd (upload_paths fp env opts ps dev rp st))"
proof (induction ps arbitrary: st)
  case Nil
  then show ?case by (simp add: dry_ok_refl)
next
  case (Cons p ps)
  let ?st1 = "emit (OsStat p) st"
  have s: "dry_ok st ?st1" by (simp add: dry_ok_emit)
  show ?case
  proof (cases "stat_local env p")
    case (Inl e)
    then show ?thesis using s by (simp add: Let_def)
  next
    case (Inr info)
    define r where "r = (case info of
                   LDir name mkdir_err readdir_err entries \<Rightarrow>
                     if \<not> Recursive opts
                     then (Some (p @ '' is a directory, use -r flag for recursive upload''), ?st1)
                     else uploadDirectory fp opts mkdir_err readdir_err entries p dev rp ?st1
                 | LFile name info_err size0 fenv \<Rightarrow>
                     uploadFile fp opts p dev (ResolveRemoteDestination fp p rp) size0 fenv ?st1)"
    have "dry_ok ?st1 (snd r)"
      unfolding r_def
      by (cases info)
         (simp_all add: dry_ok_refl dry_ok_uploadFile dry_ok_uploadDirectory assms
            del: uploadDirectory.simps)
    then have k: "dry_ok st (snd r)" by (rule dry_ok_trans [OF s])
    have "upload_paths fp env opts (p # ps) dev rp st =
        (case r of (Some e, st') \<Rightarrow> (Some e, st')
                 | (None, st') \<Rightarrow> upload_paths fp env opts ps dev rp st')"
      by (simp add: Inr r_def Let_def del: uploadDirectory.simps)
    then show ?thesis
      using k Cons.IH [of "snd r"]
      by (cases r) (auto split: option.splits intro: dry_ok_trans)
  qed
qed

lemma dry_run_Upload:
  assumes "DryRun opts" and "Upload fp env opts localPaths dev rp = ((Some r, e), tr)"
  shows "FilesTransferred r = 0 \<and> BytesTransferred r = 0 \<and> list_all (\<lambda>e. \<not> is_mutation e) tr"
proof -
  let ?st = "upload_paths fp env opts localPaths dev rp (new_run [CheckDeviceOnline dev])"
  have "dry_ok (new_run [CheckDeviceOnline dev]) (snd ?st)" by (rule dry_ok_upload_paths [OF assms(1)])
  moreover have "r = result (snd ?st) \<and> tr = trace (snd ?st)"
    using assms(2) by (auto simp: Upload_def Let_def split: option.splits prod.splits)
  ultimately show ?thesis by (auto simp: dry_ok_def new_run_def)
qed

lemma dry_run_Download:
  assumes "DryRun opts" and "Download fp env opts dev rp lp = ((Some r, e), tr)"
  shows "FilesTransferred r = 0 \<and> BytesTransferred r = 0 \<and> list_all (\<lambda>e. \<not> is_mutation e) tr"
proof -
  let ?s0 = "new_run [CheckDeviceOnline dev, StatFile dev rp]"
  obtain info where oe: "online_err env = None" and sr: "stat_res env = Inr info"
    using assms(2) by (auto simp: Download_def Let_def split: option.splits sum.splits)
  have "\<exists>st. dry_ok ?s0 st \<and> r = result st \<and> tr = trace st"
  proof (cases info)
    case (RFile name sz fenv)
    let ?r = "downloadFile fp opts dev rp lp sz fenv ?s0"
    have "r = result (snd ?r) \<and> tr = trace (snd ?r)"
      using assms(2) oe sr RFile by (simp add: Download_def Let_def split: prod.splits)
    then show ?thesis using dry_ok_downloadFile [OF assms(1), of ?s0 fp dev rp lp sz fenv] by blast
  next
    case (RDir name le me files)
    let ?r = "downloadDirectory fp opts dev le me files rp lp ?s0"
    have "r = result (snd ?r) \<and> tr = trace (snd ?r)"
      using assms(2) oe sr RDir
      by (simp add: Download_def Let_def del: downloadDirectory.simps split: prod.splits if_splits)
    then show ?thesis
      using dry_ok_downloadDirectory [OF assms(1), of ?s0 fp dev le me files rp lp] by blast
  qed
  then show ?thesis by (auto simp: dry_ok_def new_run_def)
qed

text \<open>
  Claim C2 fails on its count. The dry-run upload of one file reports 0 files, where the same
  upload without \<open>DryRun\<close> transfers 1; the command prints the count as
  \<open>Would transfer %d file(s)\<close>.
\<close>

theorem dry_run_upload_counts_no_file:
  "Upload unix_filepath one_file_env (plain_opts\<lparr>DryRun := True\<rparr>) [''a.txt''] ''dev'' ''/tmp/''
     = ((Some \<lparr>FilesTransferred = 0, BytesTransferred = 0, Errors = []\<rparr>, None),
        [CheckDeviceOnline ''dev'', OsStat ''a.txt'',
         Printf ''Would upload: %s -> %s:%s (%s)\<newline>''
           [Str ''a.txt'', Str ''dev'', Str ''/tmp/a.txt'', Size 5]])
   \<and> Upload unix_filepath one_file_env plain_opts [''a.txt''] ''dev'' ''/tmp/''
     = ((Some \<lparr>FilesTransferred = 1, BytesTransferred = 5, Errors = []\<rparr>, None),
        [CheckDeviceOnline ''dev'', OsStat ''a.txt'', OsOpen ''a.txt'', OsReadAll ''a.txt'',
         UploadFile ''dev'' ''/tmp/a.txt'' 5,
         Printf ''  %s  %s  -> %s\<newline>'' [Str ''a.txt'', Size 5, Str ''/tmp/a.txt'']])"
  by (simp add: transfer_eval)

subsection \<open>Several local paths\<close>

text \<open>
  Claim C8 as stated fails: \<open>Upload\<close> has no check of its own. Called with two local files and
  the destination \<open>/tmp/x\<close>, it asks the device, uploads both files to \<open>/tmp/x\<close>, and returns
  no error.
\<close>

theorem upload_multiple_counterexample:
  "Upload unix_filepath one_file_env plain_opts [''a.txt'', ''b.txt''] ''dev'' ''/tmp/x''
     = ((Some \<lparr>FilesTransferred = 2, BytesTransferred = 10, Errors = []\<rparr>, None),
        [CheckDeviceOnline ''dev'',
         OsStat ''a.txt'', OsOpen ''a.txt'', OsReadAll ''a.txt'', UploadFile ''dev'' ''/tmp/x'' 5,
         Printf ''  %s  %s  -> %s\<newline>'' [Str ''a.txt'', Size 5, Str ''/tmp/x''],
         OsStat ''b.txt'', OsOpen ''b.txt'', OsReadAll ''b.txt'', UploadFile ''dev'' ''/tmp/x'' 5,
         Printf ''  %s  %s  -> %s\<newline>'' [Str ''b.txt'', Size 5, Str ''/tmp/x'']])"
  by (simp add: transfer_eval)

lemma stat_all_found:
  "\<forall>p \<in> set ps. \<exists>info. stat_local env p = Inr info \<Longrightarrow>
   stat_all env ps tr = (None, tr @ map (\<lambda>p. Transfer (OsStat p)) ps)"
  by (induction ps arbitrary: tr) auto

text \<open>
  Claim C8, as amended: the check is in \<open>runPut\<close>. With more than one local path, each of
  which \<open>os.Stat\<close> finds, and a destination that parses and does not end in \<open>/\<close>, the command
  fails with the validation error; all it has done before is \<open>os.Stat\<close> on the local paths,
  and neither a client nor \<open>Upload\<close> is reached.
\<close>

theorem put_multiple_needs_directory:
  assumes "length localPaths > 1" and "IsRemotePath dest" and "ParseRemotePath dest = Inr remote"
    and "\<not> IsDirectory (Path remote)"
    and "\<forall>p \<in> set localPaths. \<exists>info. stat_local env p = Inr info"
  shows "runPut ParseFloat impl fp cenv env flags (localPaths @ [dest])
           = (Some DestinationNotDirectory, map (\<lambda>p. Transfer (OsStat p)) localPaths)"
  using assms stat_all_found [OF assms(5), of "[]"]
  by (auto simp: runPut_def Let_def)

text \<open>Two files and the destination \<open>dev:/tmp/x\<close>.\<close>

theorem put_multiple_needs_directory_witness:
  "IsRemotePath ''dev:/tmp/x''
   \<and> ParseRemotePath ''dev:/tmp/x'' = Inr \<lparr>DeviceID = ''dev'', Path = ''/tmp/x''\<rparr>
   \<and> \<not> IsDirectory ''/tmp/x''
   \<and> runPut ParseFloat_decimal (\<lambda>f. 0) unix_filepath demo_cli one_file_env demo_flags
        [''a.txt'', ''b.txt'', ''dev:/tmp/x'']
      = (Some DestinationNotDirectory, [Transfer (OsStat ''a.txt''), Transfer (OsStat ''b.txt'')])"
proof -
  have h1: "IsRemotePath ''dev:/tmp/x''"
    by (simp add: IsRemotePath_def Index_def)
  have h2: "ParseRemotePath ''dev:/tmp/x'' = Inr \<lparr>DeviceID = ''dev'', Path = ''/tmp/x''\<rparr>"
    by (simp add: ParseRemotePath_def Index_def HasPrefix_def)
  have h3: "\<not> IsDirectory (Path \<lparr>DeviceID = ''dev'', Path = ''/tmp/x''\<rparr>)"
    by (simp add: IsDirectory_def HasSuffix_def)
  have h4: "\<forall>p \<in> set [''a.txt'', ''b.txt'']. \<exists>info. stat_local one_file_env p = Inr info"
    by (simp add: one_file_env_def)
  have h0: "length [''a.txt'', ''b.txt''] > 1" by simp
  show ?thesis
    using put_multiple_needs_directory [OF h0 h1 h2 h3 h4, of ParseFloat_decimal "\<lambda>f. 0"
        unix_filepath demo_cli demo_flags] h1 h2 h3
    by simp
qed

end
